theory Spec2Isabelle
  imports Complex_Main
begin

section \<open>The model of scipy/stats/contingency.py\<close>

text \<open>
  The module works on numpy arrays. An array is modelled by its dtype, its shape and
  its buffer in row-major (C) order. The numbers a caller passes are finite and are
  modelled by \<^typ>\<open>real\<close>: integers without overflow, float64 without rounding. Where
  the module divides, the quotient is a float64 that may be \<open>nan\<close> or infinite (numpy
  divides by zero without raising: it emits a RuntimeWarning and returns \<open>nan\<close>,
  \<open>inf\<close> or \<open>-inf\<close>), so computed values are modelled by \<open>npfloat\<close>: the reals
  extended with \<open>inf\<close>, \<open>-inf\<close> and \<open>nan\<close>, with the arithmetic of IEEE 754 on them.
  Signed zeros are not distinguished (every zero is \<open>+0.0\<close>).

  The functions of the module are \<open>margins\<close>, \<open>expected_freq\<close>, \<open>chi2_contingency\<close>
  and \<open>association\<close>; every exception they raise is a value of the type \<open>error\<close>. The
  functions of numpy and of the standard library that they call (\<open>np.sum\<close> inside
  \<open>np.apply_over_axes\<close>, broadcasting, \<open>functools.reduce\<close>, \<open>math.sqrt\<close>) are
  modelled first.
\<close>

subsection \<open>float64 values\<close>

datatype npfloat = Fin real | PInf | NInf | NaN

fun fneg :: "npfloat \<Rightarrow> npfloat" where
  "fneg (Fin x) = Fin (- x)"
| "fneg PInf = NInf"
| "fneg NInf = PInf"
| "fneg NaN = NaN"

fun fadd :: "npfloat \<Rightarrow> npfloat \<Rightarrow> npfloat" where
  "fadd NaN _ = NaN"
| "fadd _ NaN = NaN"
| "fadd (Fin x) (Fin y) = Fin (x + y)"
| "fadd (Fin x) PInf = PInf"
| "fadd (Fin x) NInf = NInf"
| "fadd PInf (Fin y) = PInf"
| "fadd NInf (Fin y) = NInf"
| "fadd PInf PInf = PInf"
| "fadd NInf NInf = NInf"
| "fadd PInf NInf = NaN"
| "fadd NInf PInf = NaN"

definition fsub :: "npfloat \<Rightarrow> npfloat \<Rightarrow> npfloat" where
  "fsub a b = fadd a (fneg b)"

text \<open>The sign of an infinite product or quotient: \<open>s\<close> is true for a positive sign.\<close>

definition signed_inf :: "bool \<Rightarrow> npfloat" where
  "signed_inf s = (if s then PInf else NInf)"

fun fmul :: "npfloat \<Rightarrow> npfloat \<Rightarrow> npfloat" where
  "fmul NaN _ = NaN"
| "fmul _ NaN = NaN"
| "fmul (Fin x) (Fin y) = Fin (x * y)"
| "fmul (Fin x) PInf = (if x = 0 then NaN else signed_inf (0 < x))"
| "fmul (Fin x) NInf = (if x = 0 then NaN else signed_inf (x < 0))"
| "fmul PInf (Fin y) = (if y = 0 then NaN else signed_inf (0 < y))"
| "fmul NInf (Fin y) = (if y = 0 then NaN else signed_inf (y < 0))"
| "fmul PInf PInf = PInf"
| "fmul NInf NInf = PInf"
| "fmul PInf NInf = NInf"
| "fmul NInf PInf = NInf"

text \<open>
  Division of numpy scalars and arrays. A zero divisor raises nothing: \<open>0/0\<close> is
  \<open>nan\<close> and \<open>x/0\<close> is an infinity with the sign of \<open>x\<close>.
\<close>

fun fdiv :: "npfloat \<Rightarrow> npfloat \<Rightarrow> npfloat" where
  "fdiv NaN _ = NaN"
| "fdiv _ NaN = NaN"
| "fdiv (Fin x) (Fin y) =
     (if y \<noteq> 0 then Fin (x / y) else if x = 0 then NaN else signed_inf (0 < x))"
| "fdiv (Fin x) PInf = Fin 0"
| "fdiv (Fin x) NInf = Fin 0"
| "fdiv PInf (Fin y) = signed_inf (0 \<le> y)"
| "fdiv NInf (Fin y) = signed_inf (y < 0)"
| "fdiv PInf PInf = NaN"
| "fdiv NInf NInf = NaN"
| "fdiv PInf NInf = NaN"
| "fdiv NInf PInf = NaN"

fun fabs :: "npfloat \<Rightarrow> npfloat" where
  "fabs (Fin x) = Fin \<bar>x\<bar>"
| "fabs PInf = PInf"
| "fabs NInf = PInf"
| "fabs NaN = NaN"

text \<open>\<open>np.sign\<close>: \<open>-1\<close>, \<open>0\<close> or \<open>1\<close>, and \<open>nan\<close> for \<open>nan\<close>.\<close>

fun fsign :: "npfloat \<Rightarrow> npfloat" where
  "fsign (Fin x) = Fin (sgn x)"
| "fsign PInf = Fin 1"
| "fsign NInf = Fin (- 1)"
| "fsign NaN = NaN"

text \<open>The comparison \<open><=\<close> of floats: false whenever an operand is \<open>nan\<close>.\<close>

fun fle :: "npfloat \<Rightarrow> npfloat \<Rightarrow> bool" where
  "fle NaN _ = False"
| "fle _ NaN = False"
| "fle (Fin x) (Fin y) = (x \<le> y)"
| "fle NInf _ = True"
| "fle _ PInf = True"
| "fle PInf _ = False"
| "fle _ NInf = False"

text \<open>\<open>np.minimum\<close>: the smaller operand; \<open>nan\<close> if either is \<open>nan\<close>.\<close>

fun fminimum :: "npfloat \<Rightarrow> npfloat \<Rightarrow> npfloat" where
  "fminimum NaN _ = NaN"
| "fminimum _ NaN = NaN"
| "fminimum a b = (if fle a b then a else b)"

text \<open>The sum of a list of floats, from the left.\<close>

definition fsum :: "npfloat list \<Rightarrow> npfloat" where
  "fsum xs = foldl fadd (Fin 0) xs"

subsection \<open>Errors\<close>

text \<open>
  The module raises \<open>ValueError\<close> with five different messages; the model keeps them
  apart. The other constructors are the exceptions that the library calls of the module
  can raise.
\<close>

datatype error =
    NegativeValue              \<comment> \<open>"All values in `observed` must be nonnegative."\<close>
  | EmptyInput                 \<comment> \<open>"No data; `observed` has size 0."\<close>
  | ZeroExpected "nat list"    \<comment> \<open>"... has a zero element at %s.", with the position\<close>
  | WrongDtype                 \<comment> \<open>"`observed` must be an integer array."\<close>
  | WrongRank                  \<comment> \<open>"method only accepts 2d arrays"\<close>
  | UnknownMethod              \<comment> \<open>"Invalid argument value: 'method' argument must be ..."\<close>
  | ReduceEmpty                \<comment> \<open>TypeError of \<open>functools.reduce\<close> on an empty list\<close>
  | AxisError                  \<comment> \<open>\<open>np.sum\<close> over an axis that the array does not have\<close>
  | BroadcastError             \<comment> \<open>operands that cannot be broadcast together\<close>
  | MathDomainError            \<comment> \<open>ValueError of \<open>math.sqrt\<close> on a negative number\<close>
  | DivergenceError            \<comment> \<open>any exception raised by \<open>power_divergence\<close>\<close>
  | ZeroDivisionError          \<comment> \<open>division of a Python float or int by zero\<close>

subsection \<open>Arrays\<close>

datatype np_dtype = DInt | DFloat | DBool | DObject

record 'a ndarray =
  dtype :: np_dtype
  shape :: "nat list"
  data :: "'a list"

definition ndim :: "'a ndarray \<Rightarrow> nat" where
  "ndim a = length (shape a)"

definition size_nd :: "'a ndarray \<Rightarrow> nat" where
  "size_nd a = prod_list (shape a)"

text \<open>The invariant of every array: the buffer holds one value for each index.\<close>

definition well_formed :: "'a ndarray \<Rightarrow> bool" where
  "well_formed a \<longleftrightarrow> length (data a) = prod_list (shape a)"

text \<open>Row-major addressing: the flat position of a multi-index, and back.\<close>

fun ravel :: "nat list \<Rightarrow> nat list \<Rightarrow> nat" where
  "ravel (n # ns) (i # is) = i * prod_list ns + ravel ns is"
| "ravel _ _ = 0"

fun unravel :: "nat list \<Rightarrow> nat \<Rightarrow> nat list" where
  "unravel [] p = []"
| "unravel (n # ns) p = (p div prod_list ns) # unravel ns (p mod prod_list ns)"

definition valid_index :: "nat list \<Rightarrow> nat list \<Rightarrow> bool" where
  "valid_index sh idx \<longleftrightarrow> list_all2 (\<lambda>i n. i < n) idx sh"

definition item :: "'a ndarray \<Rightarrow> nat list \<Rightarrow> 'a" where
  "item a idx = data a ! ravel (shape a) idx"

text \<open>The buffer of shape \<open>n # ns\<close> cut into its \<open>n\<close> sub-arrays of \<open>p\<close> cells each.\<close>

fun chunks :: "nat \<Rightarrow> nat \<Rightarrow> 'a list \<Rightarrow> 'a list list" where
  "chunks p 0 xs = []"
| "chunks p (Suc n) xs = take p xs # chunks p n (drop p xs)"

text \<open>
  \<open>np.sum(a, axis)\<close> followed by \<open>expand_dims(res, axis)\<close>, on the buffer: axis 0 adds
  the sub-arrays cell by cell, a later axis is summed inside each sub-array. An axis that
  the array does not have is an error of \<open>sum_keepdims\<close>, before the buffer is read.
\<close>

fun sum_axis_data :: "nat \<Rightarrow> nat list \<Rightarrow> ('a::comm_monoid_add) list \<Rightarrow> 'a list" where
  "sum_axis_data j [] xs = xs"
| "sum_axis_data 0 (n # ns) xs =
     foldr (map2 (+)) (chunks (prod_list ns) n xs) (replicate (prod_list ns) 0)"
| "sum_axis_data (Suc j) (n # ns) xs =
     concat (map (sum_axis_data j ns) (chunks (prod_list ns) n xs))"

definition sum_keepdims :: "('a::comm_monoid_add) ndarray \<Rightarrow> nat \<Rightarrow> error + 'a ndarray" where
  "sum_keepdims a axis =
     (if axis < ndim a
      then Inr (a\<lparr>shape := (shape a)[axis := 1],
                 data := sum_axis_data axis (shape a) (data a)\<rparr>)
      else Inl AxisError)"

text \<open>
  \<open>np.apply_over_axes(np.sum, a, axes)\<close>: the axes are summed one after the other,
  each sum keeping its axis with length 1.
\<close>

fun apply_over_axes_sum :: "('a::comm_monoid_add) ndarray \<Rightarrow> nat list \<Rightarrow> error + 'a ndarray" where
  "apply_over_axes_sum val [] = Inr val"
| "apply_over_axes_sum val (axis # axes) =
     (case sum_keepdims val axis of
        Inl e \<Rightarrow> Inl e
      | Inr res \<Rightarrow> apply_over_axes_sum res axes)"

text \<open>\<open>a.sum()\<close>: the sum of all cells.\<close>

definition np_sum :: "('a::comm_monoid_add) ndarray \<Rightarrow> 'a" where
  "np_sum a = sum_list (data a)"

text \<open>
  Broadcasting of two operands: the shorter shape is padded with ones on the left, and
  on every axis the lengths are equal or one of them is 1. An operand of length 1 on an
  axis is repeated along it. Every binary operation of the module has a float64
  operand, so the result is a float64 array.
\<close>

definition pad_shape :: "nat \<Rightarrow> nat list \<Rightarrow> nat list" where
  "pad_shape d sh = replicate (d - length sh) 1 @ sh"

fun broadcast_shapes :: "nat list \<Rightarrow> nat list \<Rightarrow> nat list option" where
  "broadcast_shapes [] [] = Some []"
| "broadcast_shapes (n # ns) (m # ms) =
     (if n = m \<or> m = 1 then map_option ((#) n) (broadcast_shapes ns ms)
      else if n = 1 then map_option ((#) m) (broadcast_shapes ns ms)
      else None)"
| "broadcast_shapes _ _ = None"

fun broadcast_to :: "nat list \<Rightarrow> nat list \<Rightarrow> 'a list \<Rightarrow> 'a list" where
  "broadcast_to (n # ns) (m # ms) xs =
     (if n = m then concat (map (broadcast_to ns ms) (chunks (prod_list ns) n xs))
      else concat (replicate m (broadcast_to ns ms xs)))"
| "broadcast_to _ _ xs = xs"

definition np_binary ::
  "('a \<Rightarrow> 'b \<Rightarrow> 'c) \<Rightarrow> 'a ndarray \<Rightarrow> 'b ndarray \<Rightarrow> error + 'c ndarray" where
  "np_binary f a b =
     (let d = max (ndim a) (ndim b);
          sa = pad_shape d (shape a);
          sb = pad_shape d (shape b)
      in case broadcast_shapes sa sb of
           None \<Rightarrow> Inl BroadcastError
         | Some s \<Rightarrow>
             Inr \<lparr>dtype = DFloat, shape = s,
                  data = map2 f (broadcast_to sa s (data a)) (broadcast_to sb s (data b))\<rparr>)"

definition np_unary :: "('a \<Rightarrow> 'b) \<Rightarrow> 'a ndarray \<Rightarrow> 'b ndarray" where
  "np_unary f a = \<lparr>dtype = DFloat, shape = shape a, data = map f (data a)\<rparr>"

text \<open>
  \<open>functools.reduce(np.multiply, arrays)\<close>: a TypeError on the empty list, else the
  product from the left.
\<close>

fun reduce_loop :: "real ndarray \<Rightarrow> real ndarray list \<Rightarrow> error + real ndarray" where
  "reduce_loop acc [] = Inr acc"
| "reduce_loop acc (m # ms) =
     (case np_binary (*) acc m of
        Inl e \<Rightarrow> Inl e
      | Inr acc' \<Rightarrow> reduce_loop acc' ms)"

fun reduce_multiply :: "real ndarray list \<Rightarrow> error + real ndarray" where
  "reduce_multiply [] = Inl ReduceEmpty"
| "reduce_multiply (m # ms) = reduce_loop m ms"

text \<open>
  \<open>math.sqrt\<close>: a ValueError on a negative number and on \<open>-inf\<close>; \<open>nan\<close> and \<open>inf\<close>
  are returned as they are.
\<close>

fun py_sqrt :: "npfloat \<Rightarrow> error + npfloat" where
  "py_sqrt (Fin x) = (if x < 0 then Inl MathDomainError else Inr (Fin (sqrt x)))"
| "py_sqrt PInf = Inr PInf"
| "py_sqrt NInf = Inl MathDomainError"
| "py_sqrt NaN = Inr NaN"

subsection \<open>margins\<close>

text \<open>
  The loop of \<open>margins\<close>: for each \<open>k\<close> of \<open>ranged\<close>, the array summed over the axes
  \<open>[j for j in ranged if j != k]\<close> is appended to \<open>margsums\<close>.
\<close>

fun margins_loop ::
  "('a::comm_monoid_add) ndarray \<Rightarrow> nat list \<Rightarrow> nat list \<Rightarrow> 'a ndarray list
     \<Rightarrow> error + 'a ndarray list" where
  "margins_loop a ranged [] margsums = Inr margsums"
| "margins_loop a ranged (k # ks) margsums =
     (case apply_over_axes_sum a (filter (\<lambda>j. j \<noteq> k) ranged) of
        Inl e \<Rightarrow> Inl e
      | Inr marg \<Rightarrow> margins_loop a ranged ks (margsums @ [marg]))"

definition margins :: "('a::comm_monoid_add) ndarray \<Rightarrow> error + 'a ndarray list" where
  "margins a = (let ranged = [0..<ndim a] in margins_loop a ranged ranged [])"

subsection \<open>expected_freq\<close>

text \<open>\<open>np.asarray(observed, dtype=np.float64)\<close>: the numbers stay, the dtype changes.\<close>

definition asarray_float64 :: "real ndarray \<Rightarrow> real ndarray" where
  "asarray_float64 a = a\<lparr>dtype := DFloat\<rparr>"

definition expected_freq :: "real ndarray \<Rightarrow> error + npfloat ndarray" where
  "expected_freq observed0 =
     (let observed = asarray_float64 observed0 in
      case margins observed of
        Inl e \<Rightarrow> Inl e
      | Inr margsums \<Rightarrow>
          let d = ndim observed in
          (case reduce_multiply margsums of
             Inl e \<Rightarrow> Inl e
           | Inr product \<Rightarrow>
               Inr (np_unary (\<lambda>x. fdiv (Fin x) (Fin (np_sum observed ^ (d - 1)))) product)))"

subsection \<open>chi2_contingency\<close>

text \<open>
  \<open>power_divergence\<close> lives in another module of the package. It is a parameter of the
  model: a function of the observed table, the expected table, \<open>ddof\<close> and \<open>lambda_\<close>
  (the axis is always \<open>None\<close>) that returns the statistic and the p-value, or \<open>None\<close>
  when it raises.
\<close>

type_synonym 'l divergence =
  "npfloat ndarray \<Rightarrow> npfloat ndarray \<Rightarrow> int \<Rightarrow> 'l \<Rightarrow> (npfloat \<times> npfloat) option"

text \<open>The degrees of freedom, line 279.\<close>

definition degrees_of_freedom :: "'a ndarray \<Rightarrow> int" where
  "degrees_of_freedom expected =
     int (size_nd expected) - int (sum_list (shape expected)) + int (ndim expected) - 1"

text \<open>
  The position named in the error message: the first zero of the expected table in
  row-major order, which is the first tuple of \<open>zip(*np.nonzero(expected == 0))\<close>.
\<close>

definition zeropos :: "npfloat ndarray \<Rightarrow> nat list" where
  "zeropos expected =
     unravel (shape expected) (length (takeWhile (\<lambda>x. x \<noteq> Fin 0) (data expected)))"

text \<open>
  The observed table among computed values: the same array, its numbers read as
  float64 values.
\<close>

definition float_values :: "real ndarray \<Rightarrow> npfloat ndarray" where
  "float_values a = \<lparr>dtype = dtype a, shape = shape a, data = map Fin (data a)\<rparr>"

text \<open>Yates' correction, lines 291 to 294.\<close>

definition yates_correction ::
  "real ndarray \<Rightarrow> npfloat ndarray \<Rightarrow> error + npfloat ndarray" where
  "yates_correction observed expected =
     (case np_binary fsub expected (float_values observed) of
        Inl e \<Rightarrow> Inl e
      | Inr diff \<Rightarrow>
          let direction = np_unary fsign diff;
              magnitude = np_unary (\<lambda>x. fminimum (Fin (1 / 2)) (fabs x)) diff
          in (case np_binary fmul magnitude direction of
                Inl e \<Rightarrow> Inl e
              | Inr adj \<Rightarrow> np_binary fadd (float_values observed) adj))"

text \<open>The table handed to \<open>power_divergence\<close>, lines 288 to 294.\<close>

definition corrected_observed ::
  "int \<Rightarrow> bool \<Rightarrow> real ndarray \<Rightarrow> npfloat ndarray \<Rightarrow> error + npfloat ndarray" where
  "corrected_observed dof correction observed expected =
     (if dof = 1 \<and> correction then yates_correction observed expected
      else Inr (float_values observed))"

definition chi2_contingency ::
  "'l divergence \<Rightarrow> real ndarray \<Rightarrow> bool \<Rightarrow> 'l
     \<Rightarrow> error + (npfloat \<times> npfloat \<times> int \<times> npfloat ndarray)" where
  "chi2_contingency power_divergence observed correction lambda =
     (if list_ex (\<lambda>x. x < 0) (data observed) then Inl NegativeValue
      else if size_nd observed = 0 then Inl EmptyInput
      else case expected_freq observed of
        Inl e \<Rightarrow> Inl e
      | Inr expected \<Rightarrow>
          if list_ex (\<lambda>x. x = Fin 0) (data expected) then Inl (ZeroExpected (zeropos expected))
          else
            let dof = degrees_of_freedom expected in
            if dof = 0 then Inr (Fin 0, Fin 1, dof, expected)
            else
              (case corrected_observed dof correction observed expected of
                 Inl e \<Rightarrow> Inl e
               | Inr observed' \<Rightarrow>
                   (case power_divergence observed' expected
                           (int (size_nd observed') - 1 - dof) lambda of
                      None \<Rightarrow> Inl DivergenceError
                    | Some (chi2, p) \<Rightarrow> Inr (chi2, p, dof, expected))))"

subsection \<open>association\<close>

definition issubdtype_integer :: "np_dtype \<Rightarrow> bool" where
  "issubdtype_integer t \<longleftrightarrow> t = DInt"

text \<open>
  The divisions of \<open>association\<close>. In \<open>chi2_stat[0] / arr.sum()\<close> the divisor is a
  numpy integer (the sum of an array), so the division is numpy's even when
  \<open>chi2_stat[0]\<close> is the Python float \<open>0.0\<close> of the degenerate case, and \<open>phi2\<close> is a
  numpy float64. In \<open>phi2 / min(...)\<close>, \<open>phi2 / math.sqrt(...)\<close> and
  \<open>phi2 / (1 + phi2)\<close> the dividend is this float64. A numpy division by zero raises
  nothing, so all four are \<open>fdiv\<close>, and none raises ZeroDivisionError.
\<close>

definition association ::
  "'l divergence \<Rightarrow> real ndarray \<Rightarrow> string \<Rightarrow> bool \<Rightarrow> 'l \<Rightarrow> error + npfloat" where
  "association power_divergence arr method correction lambda =
     (if \<not> issubdtype_integer (dtype arr) then Inl WrongDtype
      else if length (shape arr) \<noteq> 2 then Inl WrongRank
      else case chi2_contingency power_divergence arr correction lambda of
        Inl e \<Rightarrow> Inl e
      | Inr chi2_stat \<Rightarrow>
          let phi2 = fdiv (fst chi2_stat) (Fin (np_sum arr));
              n_rows = int (shape arr ! 0);
              n_cols = int (shape arr ! 1)
          in if method = ''cramer''
             then py_sqrt (fdiv phi2 (Fin (of_int (min (n_cols - 1) (n_rows - 1)))))
             else if method = ''tschuprow''
             then (case py_sqrt (Fin (of_int ((n_rows - 1) * (n_cols - 1)))) of
                     Inl e \<Rightarrow> Inl e
                   | Inr s \<Rightarrow> py_sqrt (fdiv phi2 s))
             else if method = ''pearson''
             then py_sqrt (fdiv phi2 (fadd (Fin 1) phi2))
             else Inl UnknownMethod)"

subsection \<open>The specification of a marginal sum\<close>

text \<open>
  The cells of the table whose \<open>k\<close>-th coordinate is \<open>i\<close>, as flat positions, and
  the sum of the table over them: "the table summed over every axis except \<open>k\<close>",
  at position \<open>i\<close> of axis \<open>k\<close>.
\<close>

definition cells_on :: "nat list \<Rightarrow> nat \<Rightarrow> nat \<Rightarrow> nat list" where
  "cells_on sh k i = filter (\<lambda>p. unravel sh p ! k = i) [0..<prod_list sh]"

definition marginal_total :: "('a::comm_monoid_add) ndarray \<Rightarrow> nat \<Rightarrow> nat \<Rightarrow> 'a" where
  "marginal_total a k i = sum_list (map (\<lambda>p. data a ! p) (cells_on (shape a) k i))"


subsection \<open>Auxiliary functions of the proofs\<close>

text \<open>The shape and the buffer after summing over a list of axes, one after the other.\<close>

fun axes_shape :: "nat list \<Rightarrow> nat list \<Rightarrow> nat list" where
  "axes_shape [] sh = sh"
| "axes_shape (j # js) sh = axes_shape js (sh[j := 1])"

fun axes_data :: "nat list \<Rightarrow> nat list \<Rightarrow> ('a::comm_monoid_add) list \<Rightarrow> 'a list" where
  "axes_data [] sh xs = xs"
| "axes_data (j # js) sh xs = axes_data js (sh[j := 1]) (sum_axis_data j sh xs)"

text \<open>The axes that \<open>margins\<close> sums for \<open>k\<close>, and the margin that results.\<close>

definition other_axes :: "nat \<Rightarrow> nat \<Rightarrow> nat list" where
  "other_axes d k = filter (\<lambda>j. j \<noteq> k) [0..<d]"

definition marg_data :: "nat \<Rightarrow> nat list \<Rightarrow> ('a::comm_monoid_add) list \<Rightarrow> 'a list" where
  "marg_data k sh xs = axes_data (other_axes (length sh) k) sh xs"

definition margin_array :: "('a::comm_monoid_add) ndarray \<Rightarrow> nat \<Rightarrow> 'a ndarray" where
  "margin_array a k =
     a\<lparr>shape := (replicate (ndim a) 1)[k := shape a ! k],
       data := marg_data k (shape a) (data a)\<rparr>"

text \<open>
  The buffer of the product of the first \<open>j\<close> margins: every cell of the product so
  far is multiplied by every cell of the next margin.
\<close>

definition outer_step :: "real list \<Rightarrow> real list \<Rightarrow> real list" where
  "outer_step xs v = concat (map (\<lambda>x. map ((*) x) v) xs)"

definition outer_data :: "real ndarray \<Rightarrow> nat \<Rightarrow> real list" where
  "outer_data a j =
     foldl outer_step (marg_data 0 (shape a) (data a))
       (map (\<lambda>k. marg_data k (shape a) (data a)) [1..<j])"

subsection \<open>Example tables\<close>

text \<open>
  Two instances of the parameter \<open>power_divergence\<close>, for the examples. The first
  always raises.
\<close>

definition failing_divergence :: "unit divergence" where
  "failing_divergence f_obs f_exp ddof lam = None"

text \<open>
  Modelled from the spec: \<open>power_divergence\<close> of \<open>scipy/stats/stats.py\<close>, with the
  default family. Its statistic is Pearson's, the sum of
  \<open>(observed - expected)\<^sup>2 / expected\<close> over all cells. The p-value, the survival
  function of the chi-square distribution, is not modelled: this instance returns
  \<open>nan\<close> for it.
\<close>

definition pearson_statistic :: "npfloat list \<Rightarrow> npfloat list \<Rightarrow> npfloat" where
  "pearson_statistic f_obs f_exp =
     fsum (map2 (\<lambda>x e. fdiv (fmul (fsub x e) (fsub x e)) e) f_obs f_exp)"

definition pearson_divergence :: "unit divergence" where
  "pearson_divergence f_obs f_exp ddof lam =
     Some (pearson_statistic (data f_obs) (data f_exp), NaN)"

text \<open>The table of the docstrings of \<open>expected_freq\<close> and \<open>chi2_contingency\<close>.\<close>

definition table_2x3 :: "real ndarray" where
  "table_2x3 = \<lparr>dtype = DInt, shape = [2, 3], data = [10, 10, 20, 20, 20, 20]\<rparr>"

definition expected_2x3 :: "npfloat ndarray" where
  "expected_2x3 =
     \<lparr>dtype = DFloat, shape = [2, 3], data = [Fin 12, Fin 12, Fin 16, Fin 18, Fin 18, Fin 24]\<rparr>"

text \<open>The tables of the docstrings of \<open>margins\<close> and \<open>association\<close>.\<close>

definition table_2x3x4 :: "real ndarray" where
  "table_2x3x4 = \<lparr>dtype = DInt, shape = [2, 3, 4], data = map real [0..<24]\<rparr>"

definition table_4x2 :: "real ndarray" where
  "table_4x2 =
     \<lparr>dtype = DInt, shape = [4, 2], data = [100, 150, 203, 322, 420, 700, 320, 210]\<rparr>"

text \<open>A square table, its expected frequencies, and the table after Yates' correction.\<close>

definition table_2x2 :: "real ndarray" where
  "table_2x2 = \<lparr>dtype = DInt, shape = [2, 2], data = [10, 20, 20, 10]\<rparr>"

definition expected_2x2 :: "npfloat ndarray" where
  "expected_2x2 = \<lparr>dtype = DFloat, shape = [2, 2], data = [Fin 15, Fin 15, Fin 15, Fin 15]\<rparr>"




text \<open>One-dimensional tables, with and without a zero.\<close>

definition table_3_5 :: "real ndarray" where
  "table_3_5 = \<lparr>dtype = DInt, shape = [2], data = [3, 5]\<rparr>"

definition table_0_5 :: "real ndarray" where
  "table_0_5 = \<lparr>dtype = DInt, shape = [2], data = [0, 5]\<rparr>"

text \<open>A table with a row of zeros, and the table with a negative entry of the spec.\<close>

definition table_zero_row :: "real ndarray" where
  "table_zero_row = \<lparr>dtype = DInt, shape = [2, 2], data = [1, 2, 0, 0]\<rparr>"

definition expected_zero_row :: "npfloat ndarray" where
  "expected_zero_row = \<lparr>dtype = DFloat, shape = [2, 2], data = [Fin 1, Fin 2, Fin 0, Fin 0]\<rparr>"

definition table_negative :: "real ndarray" where
  "table_negative = \<lparr>dtype = DInt, shape = [2, 2], data = [- 1, 2, 3, 4]\<rparr>"

text \<open>Tables with one row and with one column.\<close>

definition table_1x3 :: "real ndarray" where
  "table_1x3 = \<lparr>dtype = DInt, shape = [1, 3], data = [1, 2, 3]\<rparr>"

definition table_3x1 :: "real ndarray" where
  "table_3x1 = \<lparr>dtype = DInt, shape = [3, 1], data = [1, 2, 3]\<rparr>"

text \<open>Tables of floats of rank 1 and of rank 3, and a table of integers of rank 1.\<close>

definition float_table_1d :: "real ndarray" where
  "float_table_1d = \<lparr>dtype = DFloat, shape = [2], data = [3 / 2, 2]\<rparr>"

definition float_table_3d :: "real ndarray" where
  "float_table_3d = \<lparr>dtype = DFloat, shape = [1, 1, 2], data = [3 / 2, 2]\<rparr>"

definition int_table_1d :: "real ndarray" where
  "int_table_1d = \<lparr>dtype = DInt, shape = [2], data = [3, 2]\<rparr>"

section \<open>Properties of the model\<close>

subsection \<open>The errors that each function can raise\<close>

lemma np_binary_error: "np_binary f a b = Inl e \<Longrightarrow> e = BroadcastError"
  by (auto simp: np_binary_def Let_def split: option.splits)

lemma sum_keepdims_error: "sum_keepdims a axis = Inl e \<Longrightarrow> e = AxisError"
  by (auto simp: sum_keepdims_def split: if_splits)

lemma apply_over_axes_sum_error: "apply_over_axes_sum a axes = Inl e \<Longrightarrow> e = AxisError"
  by (induction axes arbitrary: a) (auto split: sum.splits dest: sum_keepdims_error)

lemma margins_loop_error: "margins_loop a ranged ks acc = Inl e \<Longrightarrow> e = AxisError"
  by (induction ks arbitrary: acc) (auto split: sum.splits dest: apply_over_axes_sum_error)

lemma margins_error: "margins a = Inl e \<Longrightarrow> e = AxisError"
  by (auto simp: margins_def Let_def dest: margins_loop_error)

lemma reduce_loop_error: "reduce_loop acc ms = Inl e \<Longrightarrow> e = BroadcastError"
  by (induction ms arbitrary: acc) (auto split: sum.splits dest: np_binary_error)

lemma reduce_multiply_error: "reduce_multiply ms = Inl e \<Longrightarrow> e = BroadcastError \<or> e = ReduceEmpty"
  by (cases ms) (auto dest: reduce_loop_error)

lemma expected_freq_error:
  "expected_freq a = Inl e \<Longrightarrow> e = AxisError \<or> e = BroadcastError \<or> e = ReduceEmpty"
  by (auto simp: expected_freq_def Let_def split: sum.splits
      dest: margins_error reduce_multiply_error)

lemma yates_correction_error: "yates_correction a b = Inl e \<Longrightarrow> e = BroadcastError"
  by (auto simp: yates_correction_def Let_def split: sum.splits dest: np_binary_error)

lemma corrected_observed_error: "corrected_observed d c a b = Inl e \<Longrightarrow> e = BroadcastError"
  by (auto simp: corrected_observed_def split: if_splits dest: yates_correction_error)

lemma chi2_contingency_error:
  "chi2_contingency pd a c l = Inl e \<Longrightarrow>
     e \<in> {NegativeValue, EmptyInput, AxisError, BroadcastError, ReduceEmpty, DivergenceError}
     \<or> (\<exists>pos. e = ZeroExpected pos)"
  by (auto simp: chi2_contingency_def Let_def split: if_splits sum.splits option.splits
      dest: expected_freq_error corrected_observed_error)

lemma py_sqrt_error: "py_sqrt x = Inl e \<Longrightarrow> e = MathDomainError"
  by (cases x) (auto split: if_splits)

subsection \<open>Cutting a buffer into sub-arrays\<close>

lemma length_chunks [simp]: "length (chunks p n xs) = n"
  by (induction n arbitrary: xs) auto

lemma concat_chunks: "length xs = n * p \<Longrightarrow> concat (chunks p n xs) = xs"
  by (induction n arbitrary: xs) auto

lemma chunks_lengths: "length xs = n * p \<Longrightarrow> \<forall>c \<in> set (chunks p n xs). length c = p"
proof (induction n arbitrary: xs)
  case 0 then show ?case by simp
next
  case (Suc n)
  have "length (drop p xs) = n * p" using Suc.prems by simp
  from Suc.IH[OF this] show ?case using Suc.prems by simp
qed

lemma chunks_concat:
  "length yss = n \<Longrightarrow> \<forall>ys \<in> set yss. length ys = p \<Longrightarrow> chunks p n (concat yss) = yss"
  by (induction yss arbitrary: n) auto

lemma chunks_nth:
  "i < n \<Longrightarrow> chunks p n xs ! i = take p (drop (i * p) xs)"
proof (induction n arbitrary: xs i)
  case 0 then show ?case by simp
next
  case (Suc n)
  show ?case
  proof (cases i)
    case 0 then show ?thesis by simp
  next
    case (Suc i')
    then have "i' < n" using Suc.prems by simp
    from Suc.IH[OF this, of "drop p xs"] show ?thesis using Suc
      by (simp add: add.commute)
  qed
qed

subsection \<open>Adding sub-arrays cell by cell\<close>

lemma length_foldr_map2:
  "\<forall>c \<in> set cs. length c = p \<Longrightarrow> length (foldr (map2 (+)) cs (replicate p (0::'a::comm_monoid_add))) = p"
  by (induction cs) auto

lemma sum_list_map2_add:
  "length xs = length ys \<Longrightarrow> sum_list (map2 (+) xs ys) = sum_list xs + sum_list (ys::'a::comm_monoid_add list)"
  by (induction xs ys rule: list_induct2) (auto simp: ac_simps)

lemma sum_list_zeros: "sum_list (replicate p (0::'a::comm_monoid_add)) = 0"
  by (induction p) auto

lemma sum_list_foldr_map2:
  "\<forall>c \<in> set cs. length c = p \<Longrightarrow>
   sum_list (foldr (map2 (+)) cs (replicate p (0::'a::comm_monoid_add))) = sum_list (concat cs)"
  by (induction cs) (auto simp: sum_list_map2_add length_foldr_map2 sum_list_zeros)

lemma nth_foldr_map2:
  "\<forall>c \<in> set cs. length c = p \<Longrightarrow> q < p \<Longrightarrow>
   foldr (map2 (+)) cs (replicate p (0::'a::comm_monoid_add)) ! q = sum_list (map (\<lambda>c. c ! q) cs)"
  by (induction cs) (auto simp: length_foldr_map2)

lemma sum_list_concat: "sum_list (concat xss) = sum_list (map sum_list xss)"
  by (induction xss) auto

lemma length_concat_const:
  "\<forall>ys \<in> set yss. length ys = p \<Longrightarrow> length (concat yss) = length yss * p"
  by (induction yss) auto

lemma length_sum_axis_data:
  "length xs = prod_list sh \<Longrightarrow> j < length sh \<Longrightarrow>
   length (sum_axis_data j sh (xs::'a::comm_monoid_add list)) = prod_list (sh[j := 1])"
proof (induction j sh xs rule: sum_axis_data.induct)
  case (1 j xs) then show ?case by simp
next
  case (2 n ns xs)
  then have "\<forall>c \<in> set (chunks (prod_list ns) n xs). length c = prod_list ns"
    by (intro chunks_lengths) simp
  then show ?case by (simp add: length_foldr_map2)
next
  case (3 j n ns xs)
  have len: "\<forall>c \<in> set (chunks (prod_list ns) n xs). length c = prod_list ns"
    using 3 by (intro chunks_lengths) simp
  have "\<forall>ys \<in> set (map (sum_axis_data j ns) (chunks (prod_list ns) n xs)). length ys = prod_list (ns[j := 1])"
    using 3 len by auto
  from length_concat_const[OF this] show ?case by simp
qed

lemma sum_list_sum_axis_data:
  "length xs = prod_list sh \<Longrightarrow> j < length sh \<Longrightarrow>
   sum_list (sum_axis_data j sh (xs::'a::comm_monoid_add list)) = sum_list xs"
proof (induction j sh xs rule: sum_axis_data.induct)
  case (1 j xs) then show ?case by simp
next
  case (2 n ns xs)
  then have "\<forall>c \<in> set (chunks (prod_list ns) n xs). length c = prod_list ns"
    by (intro chunks_lengths) simp
  then show ?case using 2 by (simp add: sum_list_foldr_map2 concat_chunks)
next
  case (3 j n ns xs)
  have len: "\<forall>c \<in> set (chunks (prod_list ns) n xs). length c = prod_list ns"
    using 3 by (intro chunks_lengths) simp
  have "map sum_list (map (sum_axis_data j ns) (chunks (prod_list ns) n xs))
      = map sum_list (chunks (prod_list ns) n xs)"
    using 3 len by auto
  then have "sum_list (concat (map (sum_axis_data j ns) (chunks (prod_list ns) n xs)))
     = sum_list (concat (chunks (prod_list ns) n xs))"
    by (simp only: sum_list_concat)
  then show ?case using 3 by (simp add: concat_chunks)
qed

subsection \<open>Summing over a list of axes\<close>

lemma length_axes_shape [simp]: "length (axes_shape js sh) = length sh"
  by (induction js arbitrary: sh) auto

lemma apply_over_axes_sum_eq:
  "\<forall>j \<in> set axes. j < ndim a \<Longrightarrow>
   apply_over_axes_sum a axes
     = Inr (a\<lparr>shape := axes_shape axes (shape a), data := axes_data axes (shape a) (data a)\<rparr>)"
proof (induction axes arbitrary: a)
  case Nil then show ?case by simp
next
  case (Cons j js)
  let ?r = "a\<lparr>shape := (shape a)[j := 1], data := sum_axis_data j (shape a) (data a)\<rparr>"
  have 1: "sum_keepdims a j = Inr ?r" using Cons.prems by (simp add: sum_keepdims_def)
  have 2: "\<forall>i \<in> set js. i < ndim ?r" using Cons.prems by (simp add: ndim_def)
  show ?case using Cons.IH[OF 2] 1 by simp
qed

lemma length_axes_data:
  "length xs = prod_list sh \<Longrightarrow> \<forall>j \<in> set js. j < length sh \<Longrightarrow>
   length (axes_data js sh (xs::'a::comm_monoid_add list)) = prod_list (axes_shape js sh)"
proof (induction js arbitrary: sh xs)
  case Nil then show ?case by simp
next
  case (Cons j js)
  have "length (sum_axis_data j sh xs) = prod_list (sh[j := 1])"
    using Cons.prems by (simp add: length_sum_axis_data)
  from Cons.IH[OF this] Cons.prems show ?case by simp
qed

lemma sum_list_axes_data:
  "length xs = prod_list sh \<Longrightarrow> \<forall>j \<in> set js. j < length sh \<Longrightarrow>
   sum_list (axes_data js sh (xs::'a::comm_monoid_add list)) = sum_list xs"
proof (induction js arbitrary: sh xs)
  case Nil then show ?case by simp
next
  case (Cons j js)
  have "length (sum_axis_data j sh xs) = prod_list (sh[j := 1])"
    using Cons.prems by (simp add: length_sum_axis_data)
  from Cons.IH[OF this] Cons.prems show ?case by (simp add: sum_list_sum_axis_data)
qed

lemma axes_shape_nth:
  "i < length sh \<Longrightarrow> axes_shape js sh ! i = (if i \<in> set js then 1 else sh ! i)"
  by (induction js arbitrary: sh) (auto simp: nth_list_update)

lemma axes_shape_all: "axes_shape [0..<length sh] sh = replicate (length sh) 1"
  by (rule nth_equalityI) (auto simp: axes_shape_nth)

lemma axes_shape_other:
  "k < length sh \<Longrightarrow> axes_shape (other_axes (length sh) k) sh = (replicate (length sh) 1)[k := sh ! k]"
  by (rule nth_equalityI) (auto simp: axes_shape_nth other_axes_def nth_list_update)

lemma axes_data_all:
  assumes "length xs = prod_list sh"
  shows "axes_data [0..<length sh] sh xs = [sum_list (xs::'a::comm_monoid_add list)]"
proof -
  have "length (axes_data [0..<length sh] sh xs) = 1"
    using length_axes_data[OF assms, of "[0..<length sh]"] by (simp add: axes_shape_all)
  then obtain y where y: "axes_data [0..<length sh] sh xs = [y]"
    by (cases "axes_data [0..<length sh] sh xs") auto
  have "sum_list (axes_data [0..<length sh] sh xs) = sum_list xs"
    using sum_list_axes_data[OF assms, of "[0..<length sh]"] by simp
  with y show ?thesis by simp
qed

lemma axes_shape_Suc:
  "axes_shape (map Suc js) (n # ns) = n # axes_shape js ns"
  by (induction js arbitrary: ns) auto

lemma axes_data_Suc:
  "length xs = n * prod_list ns \<Longrightarrow> \<forall>j \<in> set js. j < length ns \<Longrightarrow>
   axes_data (map Suc js) (n # ns) (xs::'a::comm_monoid_add list)
     = concat (map (axes_data js ns) (chunks (prod_list ns) n xs))"
proof (induction js arbitrary: ns xs)
  case Nil then show ?case by (simp add: concat_chunks)
next
  case (Cons j js)
  let ?cs = "chunks (prod_list ns) n xs"
  let ?ys = "map (sum_axis_data j ns) ?cs"
  have len: "\<forall>c \<in> set ?cs. length c = prod_list ns"
    using Cons.prems by (intro chunks_lengths) simp
  have leny: "\<forall>ys \<in> set ?ys. length ys = prod_list (ns[j := 1])"
    using Cons.prems len by (auto simp: length_sum_axis_data)
  have l2: "length (concat ?ys) = n * prod_list (ns[j := 1])"
    using length_concat_const[OF leny] by simp
  have js: "\<forall>i \<in> set js. i < length (ns[j := 1])" using Cons.prems by simp
  have "axes_data (map Suc (j # js)) (n # ns) xs
      = axes_data (map Suc js) (n # ns[j := 1]) (concat ?ys)" by simp
  also have "\<dots> = concat (map (axes_data js (ns[j := 1])) (chunks (prod_list (ns[j := 1])) n (concat ?ys)))"
    using Cons.IH[OF l2 js] .
  also have "chunks (prod_list (ns[j := 1])) n (concat ?ys) = ?ys"
    using leny by (intro chunks_concat) auto
  finally show ?case by (simp add: comp_def)
qed

subsection \<open>The margin of an axis, by recursion on the shape\<close>

lemma other_axes_0: "other_axes (Suc d) 0 = map Suc [0..<d]"
  unfolding other_axes_def
  by (simp add: upt_conv_Cons map_Suc_upt[symmetric] filter_map comp_def del: upt_Suc)

lemma other_axes_Suc: "other_axes (Suc d) (Suc k) = 0 # map Suc (other_axes d k)"
  unfolding other_axes_def
  by (simp add: upt_conv_Cons map_Suc_upt[symmetric] filter_map comp_def del: upt_Suc)

lemma marg_data_0:
  assumes "length xs = n * prod_list ns"
  shows "marg_data 0 (n # ns) (xs::'a::comm_monoid_add list) = map sum_list (chunks (prod_list ns) n xs)"
proof -
  have len: "\<forall>c \<in> set (chunks (prod_list ns) n xs). length c = prod_list ns"
    using assms by (intro chunks_lengths) simp
  have "marg_data 0 (n # ns) xs = concat (map (axes_data [0..<length ns] ns) (chunks (prod_list ns) n xs))"
    using assms by (simp add: marg_data_def other_axes_0 axes_data_Suc)
  also have "map (axes_data [0..<length ns] ns) (chunks (prod_list ns) n xs)
           = map (\<lambda>c. [sum_list c]) (chunks (prod_list ns) n xs)"
    using len by (auto simp: axes_data_all)
  finally show ?thesis by (simp add: concat_map_singleton)
qed

lemma marg_data_Suc:
  assumes "length xs = n * prod_list ns" "k < length ns"
  shows "marg_data (Suc k) (n # ns) (xs::'a::comm_monoid_add list)
       = marg_data k ns (foldr (map2 (+)) (chunks (prod_list ns) n xs) (replicate (prod_list ns) 0))"
proof -
  let ?s = "foldr (map2 (+)) (chunks (prod_list ns) n xs) (replicate (prod_list ns) 0)"
  have len: "\<forall>c \<in> set (chunks (prod_list ns) n xs). length c = prod_list ns"
    using assms by (intro chunks_lengths) simp
  have ls: "length ?s = 1 * prod_list ns" using len by (simp add: length_foldr_map2)
  have js: "\<forall>j \<in> set (other_axes (length ns) k). j < length ns" by (auto simp: other_axes_def)
  have "marg_data (Suc k) (n # ns) xs = axes_data (map Suc (other_axes (length ns) k)) (1 # ns) ?s"
    by (simp add: marg_data_def other_axes_Suc)
  also have "\<dots> = concat (map (axes_data (other_axes (length ns) k) ns) (chunks (prod_list ns) 1 ?s))"
    using axes_data_Suc[OF ls js] .
  also have "chunks (prod_list ns) 1 ?s = [?s]" using ls by simp
  finally show ?thesis by (simp add: marg_data_def)
qed

subsection \<open>The margin of an axis is the sum over the cells on it\<close>

lemma sum_cells_on:
  "sum_list (map f (cells_on sh k i)) = (\<Sum>p | p < prod_list sh \<and> unravel sh p ! k = i. (f p::'a::comm_monoid_add))"
proof -
  have "distinct (cells_on sh k i)" by (simp add: cells_on_def)
  then have "sum_list (map f (cells_on sh k i)) = sum f (set (cells_on sh k i))"
    by (rule sum_list_distinct_conv_sum_set)
  also have "set (cells_on sh k i) = {p. p < prod_list sh \<and> unravel sh p ! k = i}"
    by (auto simp: cells_on_def)
  finally show ?thesis .
qed

lemma take_drop_nths: "a + p \<le> length xs \<Longrightarrow> take p (drop a xs) = map ((!) xs) [a..<a + p]"
  by (rule nth_equalityI) auto

lemma sum_list_take_drop:
  "a + p \<le> length xs \<Longrightarrow> sum_list (take p (drop a xs)) = (\<Sum>q = a..<a + p. (xs ! q::'a::comm_monoid_add))"
  by (simp add: take_drop_nths interv_sum_list_conv_sum_set_nat)

lemma div_eq_iff_interval: "0 < p \<Longrightarrow> (q div p = i) = (i * p \<le> q \<and> q < i * p + p)" for p :: nat
proof
  assume "0 < p" "q div p = i"
  then show "i * p \<le> q \<and> q < i * p + p"
    using div_times_less_eq_dividend[of q p] dividend_less_div_times[of p q] by auto
next
  assume "0 < p" "i * p \<le> q \<and> q < i * p + p"
  then show "q div p = i"
    by (intro div_nat_eqI) (auto simp: mult.commute)
qed

lemma div_eq_interval: "i < n \<Longrightarrow> {q. q < n * p \<and> q div p = i} = {i * p..<i * p + p}" for p :: nat
proof (cases "p = 0")
  case True then show ?thesis by simp
next
  case False
  assume "i < n"
  then have "Suc i * p \<le> n * p" by (intro mult_le_mono1) simp
  then have "i * p + p \<le> n * p" by (simp add: add.commute)
  then show ?thesis using False by (auto simp: div_eq_iff_interval)
qed


lemma chunks_eq_map:
  "chunks p n xs = map (\<lambda>c. take p (drop (c * p) xs)) [0..<n]"
  by (rule nth_equalityI) (auto simp: chunks_nth)

lemma prod_list_ones_update:
  "k < d \<Longrightarrow> prod_list ((replicate d (1::nat))[k := n]) = n"
proof (induction d arbitrary: k)
  case 0 then show ?case by simp
next
  case (Suc d) then show ?case by (cases k) auto
qed

lemma length_marg_data:
  assumes "length xs = prod_list sh" "k < length sh"
  shows "length (marg_data k sh (xs::'a::comm_monoid_add list)) = sh ! k"
proof -
  have "\<forall>j \<in> set (other_axes (length sh) k). j < length sh" by (auto simp: other_axes_def)
  from length_axes_data[OF assms(1) this]
  have "length (marg_data k sh xs) = prod_list ((replicate (length sh) 1)[k := sh ! k])"
    using assms(2) by (simp only: marg_data_def axes_shape_other)
  also have "\<dots> = sh ! k"
    using prod_list_ones_update[OF assms(2), of "sh ! k"] by simp
  finally show ?thesis .
qed

lemma sum_list_marg_data:
  assumes "length xs = prod_list sh" "k < length sh"
  shows "sum_list (marg_data k sh (xs::'a::comm_monoid_add list)) = sum_list xs"
proof -
  have "\<forall>j \<in> set (other_axes (length sh) k). j < length sh" by (auto simp: other_axes_def)
  from sum_list_axes_data[OF assms(1) this] show ?thesis by (simp add: marg_data_def)
qed

lemma flat_position_less: "q < p \<Longrightarrow> c < n \<Longrightarrow> c * p + q < n * p" for p :: nat
proof -
  assume q: "q < p" and c: "c < n"
  have "c * p + q < c * p + p" using q by simp
  also have "\<dots> = Suc c * p" by simp
  also have "\<dots> \<le> n * p" using c by (intro mult_le_mono1) simp
  finally show ?thesis .
qed

lemma sum_split_rows:
  fixes f :: "nat \<Rightarrow> 'a::comm_monoid_add"
  shows "(\<Sum>q | q < p \<and> Q q. \<Sum>c<n. f (c * p + q)) = (\<Sum>r | r < n * p \<and> Q (r mod p). f r)"
proof -
  have pos: "0 < p" if "r < n * p" for r using that by (cases p) auto
  have "(\<Sum>q | q < p \<and> Q q. \<Sum>c<n. f (c * p + q))
      = (\<Sum>(q, c) \<in> {q. q < p \<and> Q q} \<times> {..<n}. f (c * p + q))"
    by (simp add: sum.cartesian_product)
  also have "\<dots> = (\<Sum>r | r < n * p \<and> Q (r mod p). f r)"
    by (rule sum.reindex_bij_witness[where i = "\<lambda>r. (r mod p, r div p)" and j = "\<lambda>(q, c). c * p + q"])
       (auto simp: flat_position_less less_mult_imp_div_less dest: pos)
  finally show ?thesis .
qed

lemma marg_data_nth:
  "length xs = prod_list sh \<Longrightarrow> k < length sh \<Longrightarrow> i < sh ! k \<Longrightarrow>
   marg_data k sh xs ! i = sum_list (map (\<lambda>p. (xs ! p::'a::comm_monoid_add)) (cells_on sh k i))"
proof (induction sh arbitrary: k xs i)
  case Nil then show ?case by simp
next
  case (Cons n ns)
  let ?p = "prod_list ns"
  have lx: "length xs = n * ?p" using Cons.prems by simp
  have len: "\<forall>c \<in> set (chunks ?p n xs). length c = ?p"
    using lx by (intro chunks_lengths) simp
  show ?case
  proof (cases k)
    case 0
    then have i: "i < n" using Cons.prems by simp
    then have "Suc i * ?p \<le> n * ?p" by (intro mult_le_mono1) simp
    then have b: "i * ?p + ?p \<le> length xs" using lx by (simp add: add.commute)
    have "marg_data 0 (n # ns) xs ! i = sum_list (take ?p (drop (i * ?p) xs))"
      using i by (simp add: marg_data_0[OF lx] chunks_nth)
    also have "\<dots> = (\<Sum>q = i * ?p..<i * ?p + ?p. xs ! q)"
      using b by (rule sum_list_take_drop)
    also have "{i * ?p..<i * ?p + ?p} = {q. q < n * ?p \<and> q div ?p = i}"
      using div_eq_interval[OF i] by simp
    finally show ?thesis using 0 by (simp add: sum_cells_on)
  next
    case (Suc k')
    then have k': "k' < length ns" and i: "i < ns ! k'" using Cons.prems by auto
    let ?s = "foldr (map2 (+)) (chunks ?p n xs) (replicate ?p 0)"
    have ls: "length ?s = ?p" using len by (simp add: length_foldr_map2)
    have snth: "?s ! q = (\<Sum>c<n. xs ! (c * ?p + q))" if q: "q < ?p" for q
    proof -
      have "?s ! q = sum_list (map (\<lambda>c. c ! q) (chunks ?p n xs))"
        using len q by (rule nth_foldr_map2)
      also have "\<dots> = sum_list (map (\<lambda>c. take ?p (drop (c * ?p) xs) ! q) [0..<n])"
        by (simp add: chunks_eq_map comp_def)
      also have "\<dots> = sum_list (map (\<lambda>c. xs ! (c * ?p + q)) [0..<n])"
      proof (rule arg_cong[where f = sum_list], rule map_cong[OF refl])
        fix c assume "c \<in> set [0..<n]"
        then have c: "c < n" by simp
        have "c * ?p + q < c * ?p + ?p" using q by simp
        also have "\<dots> = Suc c * ?p" by simp
        also have "\<dots> \<le> n * ?p" using c by (intro mult_le_mono1) simp
        finally have "c * ?p + q < length xs" using lx by simp
        then show "take ?p (drop (c * ?p) xs) ! q = xs ! (c * ?p + q)" using q by simp
      qed
      also have "\<dots> = (\<Sum>c<n. xs ! (c * ?p + q))"
        by (simp add: interv_sum_list_conv_sum_set_nat atLeast0LessThan)
      finally show ?thesis .
    qed
    have "marg_data (Suc k') (n # ns) xs ! i = marg_data k' ns ?s ! i"
      by (simp add: marg_data_Suc[OF lx k'])
    also have "\<dots> = sum_list (map (\<lambda>q. ?s ! q) (cells_on ns k' i))"
      using Cons.IH[OF ls k' i] .
    also have "\<dots> = (\<Sum>q | q < ?p \<and> unravel ns q ! k' = i. ?s ! q)"
      by (rule sum_cells_on)
    also have "\<dots> = (\<Sum>q | q < ?p \<and> unravel ns q ! k' = i. \<Sum>c<n. xs ! (c * ?p + q))"
      by (rule sum.cong) (auto simp: snth)
    also have "\<dots> = (\<Sum>r | r < n * ?p \<and> unravel ns (r mod ?p) ! k' = i. xs ! r)"
      by (rule sum_split_rows)
    finally show ?thesis using Suc by (simp add: sum_cells_on)
  qed
qed

subsection \<open>What margins returns\<close>

lemma apply_over_axes_margin:
  "k < ndim a \<Longrightarrow> apply_over_axes_sum a (filter (\<lambda>j. j \<noteq> k) [0..<ndim a]) = Inr (margin_array a k)"
proof -
  assume k: "k < ndim a"
  have "\<forall>j \<in> set (other_axes (ndim a) k). j < ndim a" by (auto simp: other_axes_def)
  from apply_over_axes_sum_eq[OF this]
  have "apply_over_axes_sum a (other_axes (ndim a) k) = Inr (margin_array a k)"
    using k by (simp add: margin_array_def marg_data_def axes_shape_other ndim_def)
  then show ?thesis by (simp add: other_axes_def)
qed

lemma margins_loop_eq:
  "\<forall>k \<in> set ks. k < ndim a \<Longrightarrow>
   margins_loop a [0..<ndim a] ks acc = Inr (acc @ map (margin_array a) ks)"
  by (induction ks arbitrary: acc) (auto simp: apply_over_axes_margin)

lemma margins_eq: "margins a = Inr (map (margin_array a) [0..<ndim a])"
  by (simp add: margins_def Let_def margins_loop_eq)


subsection \<open>Broadcasting the margins\<close>

lemma broadcast_shapes_ones:
  "broadcast_shapes (replicate m (Suc 0)) (replicate m (Suc 0)) = Some (replicate m (Suc 0))"
  by (induction m) auto

lemma broadcast_shapes_margin:
  "length pre = j \<Longrightarrow>
   broadcast_shapes (pre @ Suc 0 # replicate m (Suc 0)) (replicate j (Suc 0) @ n # replicate m (Suc 0))
     = Some (pre @ n # replicate m (Suc 0))"
  by (induction pre arbitrary: j) (auto simp: broadcast_shapes_ones)

lemma broadcast_to_ones:
  "length xs = 1 \<Longrightarrow> broadcast_to (replicate m (Suc 0)) (replicate m (Suc 0)) xs = xs"
  by (induction m) auto

lemma concat_map_concat:
  "concat (map (\<lambda>c. concat (map f c)) cs) = concat (map f (concat cs))"
  by (induction cs) auto

lemma broadcast_to_acc:
  "length xs = prod_list pre \<Longrightarrow>
   broadcast_to (pre @ Suc 0 # replicate m (Suc 0)) (pre @ n # replicate m (Suc 0)) xs
     = concat (map (replicate n) xs)"
proof (induction pre arbitrary: xs)
  case Nil
  then obtain x where x: "xs = [x]" by (cases xs) auto
  show ?case
  proof (cases "n = Suc 0")
    case True then show ?thesis by (simp add: x broadcast_to_ones)
  next
    case False then show ?thesis by (simp add: x broadcast_to_ones)
  qed
next
  case (Cons a pre)
  let ?cs = "chunks (prod_list pre) a xs"
  have len: "\<forall>c \<in> set ?cs. length c = prod_list pre"
    using Cons.prems by (intro chunks_lengths) simp
  have eq: "map (broadcast_to (pre @ Suc 0 # replicate m (Suc 0)) (pre @ n # replicate m (Suc 0))) ?cs
      = map (\<lambda>c. concat (map (replicate n) c)) ?cs"
    using len Cons.IH by auto
  have "broadcast_to ((a # pre) @ Suc 0 # replicate m (Suc 0)) ((a # pre) @ n # replicate m (Suc 0)) xs
      = concat (map (broadcast_to (pre @ Suc 0 # replicate m (Suc 0)) (pre @ n # replicate m (Suc 0))) ?cs)"
    by simp
  also have "\<dots> = concat (map (\<lambda>c. concat (map (replicate n) c)) ?cs)"
    by (simp only: eq)
  also have "\<dots> = concat (map (replicate n) (concat ?cs))"
    by (rule concat_map_concat)
  also have "concat ?cs = xs" using Cons.prems by (intro concat_chunks) simp
  finally show ?case .
qed

lemma chunks_singletons: "length v = n \<Longrightarrow> chunks (Suc 0) n v = map (\<lambda>x. [x]) v"
  by (induction v arbitrary: n) auto

lemma concat_replicate_mult: "concat (replicate a (concat (replicate b v))) = concat (replicate (a * b) v)"
  by (induction a) (auto simp: replicate_add)

lemma broadcast_to_margin:
  "length v = n \<Longrightarrow> length pre = j \<Longrightarrow>
   broadcast_to (replicate j (Suc 0) @ n # replicate m (Suc 0)) (pre @ n # replicate m (Suc 0)) v
     = concat (replicate (prod_list pre) v)"
proof (induction pre arbitrary: j)
  case Nil
  have "map (broadcast_to (replicate m (Suc 0)) (replicate m (Suc 0))) (map (\<lambda>x. [x]) v) = map (\<lambda>x. [x]) v"
    by (simp add: broadcast_to_ones)
  then show ?case using Nil by (simp add: chunks_singletons concat_map_singleton del: map_map)
next
  case (Cons a pre)
  then obtain j' where j: "j = Suc j'" "length pre = j'" by (cases j) auto
  have ih: "broadcast_to (replicate j' (Suc 0) @ n # replicate m (Suc 0)) (pre @ n # replicate m (Suc 0)) v
     = concat (replicate (prod_list pre) v)"
    using Cons.IH[OF Cons.prems(1) j(2)] .
  show ?case
  proof (cases "a = Suc 0")
    case True
    then show ?thesis using j ih Cons.prems(1) by simp
  next
    case False
    then show ?thesis using j ih by (simp add: concat_replicate_mult)
  qed
qed

lemma map2_outer:
  "length v = n \<Longrightarrow>
   map2 f (concat (map (replicate n) xs)) (concat (replicate (length xs) v))
     = concat (map (\<lambda>x. map (f x) v) xs)"
proof (induction xs)
  case Nil then show ?case by simp
next
  case (Cons x xs)
  have "map2 f (replicate n x) v = map (f x) v"
    using Cons.prems by (intro nth_equalityI) auto
  then show ?case using Cons by (simp add: zip_append)
qed

subsection \<open>The product of the margins and the expected frequencies\<close>

lemma ones_update:
  "j < d \<Longrightarrow> (replicate d x)[j := n] = replicate j x @ n # replicate (d - Suc j) x"
  by (rule nth_equalityI) (auto simp: nth_list_update nth_append nth_Cons')

lemma length_outer_step: "length (outer_step xs v) = length xs * length v"
  unfolding outer_step_def by (induction xs) auto

lemma sum_list_outer_step: "sum_list (outer_step xs v) = sum_list xs * sum_list v"
  unfolding outer_step_def
  by (induction xs) (auto simp: sum_list_const_mult algebra_simps)

lemma outer_data_one: "outer_data a (Suc 0) = marg_data 0 (shape a) (data a)"
  by (simp add: outer_data_def)

lemma outer_data_Suc:
  "0 < j \<Longrightarrow> outer_data a (Suc j) = outer_step (outer_data a j) (marg_data j (shape a) (data a))"
  by (simp add: outer_data_def)

lemma length_outer_data:
  "well_formed a \<Longrightarrow> 0 < j \<Longrightarrow> j \<le> ndim a \<Longrightarrow> length (outer_data a j) = prod_list (take j (shape a))"
proof (induction j)
  case 0 then show ?case by simp
next
  case (Suc j)
  show ?case
  proof (cases "j = 0")
    case True
    obtain n ns where sh: "shape a = n # ns" using Suc.prems by (cases "shape a") (auto simp: ndim_def)
    have "length (marg_data 0 (shape a) (data a)) = shape a ! 0"
      using Suc.prems by (intro length_marg_data) (auto simp: well_formed_def ndim_def)
    then show ?thesis using True sh by (simp add: outer_data_one)
  next
    case False
    then have j: "0 < j" "j < ndim a" using Suc.prems by auto
    have "length (marg_data j (shape a) (data a)) = shape a ! j"
      using Suc.prems j by (intro length_marg_data) (auto simp: well_formed_def ndim_def)
    then show ?thesis using Suc j
      by (simp add: outer_data_Suc length_outer_step take_Suc_conv_app_nth ndim_def)
  qed
qed

lemma sum_list_outer_data:
  "well_formed a \<Longrightarrow> 0 < j \<Longrightarrow> j \<le> ndim a \<Longrightarrow> sum_list (outer_data a j) = np_sum a ^ j"
proof (induction j)
  case 0 then show ?case by simp
next
  case (Suc j)
  have m: "sum_list (marg_data j (shape a) (data a)) = np_sum a"
    using Suc.prems by (simp add: sum_list_marg_data well_formed_def ndim_def np_sum_def)
  show ?case
  proof (cases "j = 0")
    case True
    then show ?thesis using m by (simp add: outer_data_one)
  next
    case False
    then show ?thesis using Suc m by (simp add: outer_data_Suc sum_list_outer_step)
  qed
qed

lemma np_binary_margin:
  assumes sh: "shape acc = take j sh @ replicate (length sh - j) 1"
      and la: "length (data acc) = prod_list (take j sh)"
      and j: "j < length sh"
      and sm: "shape m = (replicate (length sh) 1)[j := sh ! j]"
      and lm: "length (data m) = sh ! j"
  shows "np_binary (*) acc m
       = Inr \<lparr>dtype = DFloat, shape = take (Suc j) sh @ replicate (length sh - Suc j) 1,
              data = outer_step (data acc) (data m)\<rparr>"
proof -
  let ?d = "length sh" and ?pre = "take j sh" and ?n = "sh ! j"
  let ?ones = "replicate (?d - Suc j) (Suc 0)"
  have lp: "length ?pre = j" using j by simp
  have sa: "shape acc = ?pre @ Suc 0 # ?ones"
    using sh j by (simp add: replicate_app_Cons_same Suc_diff_Suc flip: replicate_Suc)
  have sb: "shape m = replicate j (Suc 0) @ ?n # ?ones"
    using sm j by (simp add: ones_update)
  have nd: "length (shape acc) = ?d" "length (shape m) = ?d" using sa sb j by simp_all
  have bs: "broadcast_shapes (shape acc) (shape m) = Some (?pre @ ?n # ?ones)"
    unfolding sa sb using lp by (rule broadcast_shapes_margin)
  have b1: "broadcast_to (shape acc) (?pre @ ?n # ?ones) (data acc) = concat (map (replicate ?n) (data acc))"
    unfolding sa using la by (rule broadcast_to_acc)
  have b2: "broadcast_to (shape m) (?pre @ ?n # ?ones) (data m) = concat (replicate (prod_list ?pre) (data m))"
    unfolding sb using lm lp by (rule broadcast_to_margin)
  have m2: "map2 (*) (concat (map (replicate ?n) (data acc))) (concat (replicate (length (data acc)) (data m)))
     = outer_step (data acc) (data m)"
    unfolding outer_step_def using lm by (rule map2_outer)
  have t: "take (Suc j) sh = ?pre @ [?n]" using j by (simp add: take_Suc_conv_app_nth)
  show ?thesis
    using bs b1 b2 m2 la by (simp add: np_binary_def ndim_def nd pad_shape_def t Let_def)
qed


lemma reduce_loop_margins:
  assumes a: "well_formed a"
  shows "0 < j \<Longrightarrow> j \<le> ndim a \<Longrightarrow> n = ndim a - j \<Longrightarrow>
         shape acc = take j (shape a) @ replicate (ndim a - j) 1 \<Longrightarrow>
         data acc = outer_data a j \<Longrightarrow>
         \<exists>r. reduce_loop acc (map (margin_array a) [j..<ndim a]) = Inr r
            \<and> shape r = shape a \<and> data r = outer_data a (ndim a)"
proof (induction n arbitrary: j acc)
  case 0
  then have "j = ndim a" by simp
  then show ?case using 0 by (simp add: ndim_def)
next
  case (Suc n)
  then have j: "j < ndim a" by simp
  let ?m = "margin_array a j"
  let ?acc = "\<lparr>dtype = DFloat, shape = take (Suc j) (shape a) @ replicate (ndim a - Suc j) 1,
               data = outer_step (data acc) (data ?m)\<rparr>"
  have lm: "length (data ?m) = shape a ! j"
    using a j by (simp add: margin_array_def length_marg_data well_formed_def ndim_def)
  have la: "length (data acc) = prod_list (take j (shape a))"
    using Suc.prems a by (simp add: length_outer_data)
  have step: "np_binary (*) acc ?m = Inr ?acc"
    using np_binary_margin[of acc j "shape a" ?m] Suc.prems(4) la j lm
    by (simp add: ndim_def margin_array_def)
  have d: "data ?acc = outer_data a (Suc j)"
    using Suc.prems by (simp add: outer_data_Suc margin_array_def)
  have "\<exists>r. reduce_loop ?acc (map (margin_array a) [Suc j..<ndim a]) = Inr r
            \<and> shape r = shape a \<and> data r = outer_data a (ndim a)"
    using Suc.prems j d by (intro Suc.IH) auto
  then show ?case using step j by (simp add: upt_conv_Cons)
qed

lemma reduce_multiply_margins:
  assumes a: "well_formed a" and d: "0 < ndim a"
  shows "\<exists>r. reduce_multiply (map (margin_array a) [0..<ndim a]) = Inr r
            \<and> shape r = shape a \<and> data r = outer_data a (ndim a)"
proof -
  obtain n ns where sh: "shape a = n # ns" using d by (cases "shape a") (auto simp: ndim_def)
  have s: "shape (margin_array a 0) = take 1 (shape a) @ replicate (ndim a - 1) 1"
    using sh by (simp add: margin_array_def ndim_def)
  have "\<exists>r. reduce_loop (margin_array a 0) (map (margin_array a) [1..<ndim a]) = Inr r
            \<and> shape r = shape a \<and> data r = outer_data a (ndim a)"
    using d s by (intro reduce_loop_margins[OF a, where n = "ndim a - 1"])
      (auto simp: outer_data_one margin_array_def)
  then show ?thesis using d by (simp add: upt_conv_Cons)
qed

lemma expected_freq_eq:
  assumes a: "well_formed a" and d: "0 < ndim a"
  shows "expected_freq a
       = Inr \<lparr>dtype = DFloat, shape = shape a,
              data = map (\<lambda>x. fdiv (Fin x) (Fin (np_sum a ^ (ndim a - 1)))) (outer_data a (ndim a))\<rparr>"
proof -
  let ?f = "asarray_float64 a"
  have f: "well_formed ?f" "ndim ?f = ndim a" "shape ?f = shape a" "np_sum ?f = np_sum a"
    "outer_data ?f (ndim a) = outer_data a (ndim a)"
    using a by (simp_all add: asarray_float64_def well_formed_def ndim_def np_sum_def outer_data_def)
  have "0 < ndim ?f" using d f(2) by simp
  from reduce_multiply_margins[OF f(1) this] obtain r where
    r: "reduce_multiply (map (margin_array ?f) [0..<ndim ?f]) = Inr r"
       "shape r = shape ?f" "data r = outer_data ?f (ndim ?f)" by blast
  then show ?thesis using f
    by (simp add: expected_freq_def margins_eq Let_def np_unary_def)
qed

lemma expected_freq_scalar: "ndim a = 0 \<Longrightarrow> expected_freq a = Inl ReduceEmpty"
  by (simp add: expected_freq_def margins_eq asarray_float64_def ndim_def)

subsection \<open>Positions and indices\<close>

lemma length_unravel [simp]: "length (unravel sh p) = length sh"
  by (induction sh arbitrary: p) auto

lemma unravel_valid: "p < prod_list sh \<Longrightarrow> valid_index sh (unravel sh p)"
proof (induction sh arbitrary: p)
  case Nil then show ?case by (simp add: valid_index_def)
next
  case (Cons n ns)
  then have pos: "0 < prod_list ns" by (cases "prod_list ns") auto
  have "p div prod_list ns < n" using Cons.prems by (simp add: less_mult_imp_div_less)
  moreover have "valid_index ns (unravel ns (p mod prod_list ns))"
    using pos by (intro Cons.IH) simp
  ultimately show ?case by (simp add: valid_index_def)
qed

lemma ravel_unravel: "p < prod_list sh \<Longrightarrow> ravel sh (unravel sh p) = p"
proof (induction sh arbitrary: p)
  case Nil then show ?case by simp
next
  case (Cons n ns)
  then have pos: "0 < prod_list ns" by (cases "prod_list ns") auto
  then have "ravel ns (unravel ns (p mod prod_list ns)) = p mod prod_list ns"
    by (intro Cons.IH) simp
  then show ?case by simp
qed

lemma first_zero_position:
  assumes "z \<in> set xs"
  shows "length (takeWhile (\<lambda>x. x \<noteq> z) xs) < length xs"
    and "xs ! length (takeWhile (\<lambda>x. x \<noteq> z) xs) = z"
proof -
  show 1: "length (takeWhile (\<lambda>x. x \<noteq> z) xs) < length xs"
    using assms by (induction xs) auto
  from nth_length_takeWhile[OF 1] show "xs ! length (takeWhile (\<lambda>x. x \<noteq> z) xs) = z" by simp
qed

lemma expected_freq_wf:
  assumes "well_formed a" "expected_freq a = Inr e"
  shows "shape e = shape a" and "length (data e) = prod_list (shape a)" and "0 < ndim a"
proof -
  show d: "0 < ndim a" using assms(2) expected_freq_scalar[of a] by (cases "ndim a") auto
  from expected_freq_eq[OF assms(1) d] assms(2)
  have e: "e = \<lparr>dtype = DFloat, shape = shape a,
              data = map (\<lambda>x. fdiv (Fin x) (Fin (np_sum a ^ (ndim a - 1)))) (outer_data a (ndim a))\<rparr>"
    by simp
  show "shape e = shape a" by (simp add: e)
  show "length (data e) = prod_list (shape a)"
    using length_outer_data[OF assms(1) d, of] by (simp add: e ndim_def)
qed

subsection \<open>Tables of rank 1, and sums of floats\<close>

lemma marg_data_one_dim:
  "length xs = n \<Longrightarrow> marg_data 0 [n] (xs::'a::comm_monoid_add list) = xs"
proof -
  assume l: "length xs = n"
  then have "marg_data 0 [n] xs = map sum_list (chunks (prod_list []) n xs)"
    by (intro marg_data_0) simp
  also have "\<dots> = map sum_list (map (\<lambda>x. [x]) xs)"
    using l by (simp add: chunks_singletons)
  also have "\<dots> = xs" by (simp add: comp_def)
  finally show ?thesis .
qed

lemma expected_freq_one_dim:
  assumes "shape a = [n]" "length (data a) = n"
  shows "expected_freq a = Inr \<lparr>dtype = DFloat, shape = [n], data = map Fin (data a)\<rparr>"
proof -
  have w: "well_formed a" and d: "ndim a = 1" using assms by (simp_all add: well_formed_def ndim_def)
  have "outer_data a 1 = data a"
    using assms by (simp add: outer_data_one marg_data_one_dim)
  then show ?thesis
    using expected_freq_eq[OF w] d assms by simp
qed

lemma fsum_Fin: "foldl fadd (Fin s) (map Fin ys) = Fin (s + sum_list ys)"
  by (induction ys arbitrary: s) (auto simp: add.assoc)

lemma sum_list_divide: "sum_list (map (\<lambda>x. x / c) ys) = sum_list ys / (c::real)"
  by (induction ys) (auto simp: add_divide_distrib)

subsection \<open>The margins as arrays\<close>

lemma ravel_ones_zeros: "ravel (replicate m (Suc 0)) (replicate m 0) = 0"
  by (induction m) auto

lemma ravel_margin:
  "ravel (replicate k (Suc 0) @ n # replicate m (Suc 0)) (replicate k 0 @ i # replicate m 0) = i"
  by (induction k) (auto simp: ravel_ones_zeros)

lemma ravel_margin_update:
  assumes "k < d"
  shows "ravel ((replicate d 1)[k := n]) ((replicate d 0)[k := i]) = i"
  using ravel_margin[of k n "d - Suc k" i] assms by (simp add: ones_update)

lemma margin_array_props:
  assumes a: "well_formed a" and k: "k < ndim a"
  shows "shape (margin_array a k) = (replicate (ndim a) 1)[k := shape a ! k]"
    and "ndim (margin_array a k) = ndim a"
    and "well_formed (margin_array a k)"
    and "np_sum (margin_array a k) = np_sum a"
    and "i < shape a ! k \<Longrightarrow>
           item (margin_array a k) ((replicate (ndim a) 0)[k := i]) = marginal_total a k i"
proof -
  have l: "length (data a) = prod_list (shape a)" and k': "k < length (shape a)"
    using a k by (simp_all add: well_formed_def ndim_def)
  show s: "shape (margin_array a k) = (replicate (ndim a) 1)[k := shape a ! k]"
    by (simp add: margin_array_def)
  show "ndim (margin_array a k) = ndim a" by (simp add: margin_array_def ndim_def)
  have p: "prod_list ((replicate (ndim a) 1)[k := shape a ! k]) = shape a ! k"
    using prod_list_ones_update[OF k, of "shape a ! k"] by simp
  show "well_formed (margin_array a k)"
    using length_marg_data[OF l k'] p by (simp add: well_formed_def margin_array_def)
  show "np_sum (margin_array a k) = np_sum a"
    using sum_list_marg_data[OF l k'] by (simp add: np_sum_def margin_array_def)
  show "item (margin_array a k) ((replicate (ndim a) 0)[k := i]) = marginal_total a k i"
    if "i < shape a ! k"
    using marg_data_nth[OF l k' that] ravel_margin_update[OF k, of "shape a ! k" i]
    by (simp add: item_def margin_array_def marginal_total_def)
qed

lemma sum_keepdims_margin:
  assumes a: "well_formed a" and k: "k < ndim a"
  shows "sum_keepdims (margin_array a k) k
       = Inr ((margin_array a k)\<lparr>shape := replicate (ndim a) 1, data := [np_sum a]\<rparr>)"
proof -
  let ?m = "margin_array a k"
  let ?ys = "sum_axis_data k (shape ?m) (data ?m)"
  have w: "length (data ?m) = prod_list (shape ?m)"
    using margin_array_props(3)[OF a k] by (simp add: well_formed_def)
  have kk: "k < length (shape ?m)" using k by (simp add: margin_array_def)
  have sh: "(shape ?m)[k := 1] = replicate (ndim a) 1"
    using k by (simp add: margin_array_def) (metis list_update_id length_replicate nth_replicate)
  have "length ?ys = 1"
    using length_sum_axis_data[OF w kk] sh by simp
  then obtain y where y: "?ys = [y]" by (cases ?ys) auto
  have "sum_list ?ys = np_sum a"
    using sum_list_sum_axis_data[OF w kk] margin_array_props(4)[OF a k] by (simp add: np_sum_def)
  with y have "?ys = [np_sum a]" by simp
  then show ?thesis using k sh
    by (simp add: sum_keepdims_def margin_array_props(2)[OF a k])
qed

subsection \<open>Operands of one shape, and Yates' correction\<close>






subsection \<open>The examples of the docstrings\<close>

text \<open>
  The model computes what the docstrings show: the margins of \<open>arange(24)\<close> with
  the shape (2, 3, 4), and the three coefficients of the 4 by 2 table, \<open>0.18617...\<close>,
  \<open>0.18303...\<close> and \<open>0.14146...\<close>, with Pearson's statistic.
\<close>

lemma margins_table_2x3x4:
  "margins table_2x3x4
     = Inr [\<lparr>dtype = DInt, shape = [2, 1, 1], data = [66, 210]\<rparr>,
            \<lparr>dtype = DInt, shape = [1, 3, 1], data = [60, 92, 124]\<rparr>,
            \<lparr>dtype = DInt, shape = [1, 1, 4], data = [60, 66, 72, 78]\<rparr>]"
  by code_simp

lemma chi2_table_4x2:
  "chi2_contingency pearson_divergence table_4x2 False ()
     = Inr (Fin (38529071725 / 458373468), NaN, 3,
        \<lparr>dtype = DFloat, shape = [4, 2],
         data = [Fin (10430 / 97), Fin (13820 / 97), Fin (21903 / 97), Fin (29022 / 97),
                 Fin (233632 / 485), Fin (309568 / 485), Fin (110558 / 485), Fin (146492 / 485)]\<rparr>)"
  by code_simp

lemma table_4x2_fields:
  "shape table_4x2 = [4, 2]" "dtype table_4x2 = DInt" "np_sum table_4x2 = 2425"
  by (simp_all add: table_4x2_def np_sum_def)

lemma association_table_4x2_cramer:
  "\<exists>v. association pearson_divergence table_4x2 ''cramer'' False () = Inr (Fin v)
       \<and> 18617 / 100000 < v \<and> v < 18618 / 100000"
proof -
  let ?q = "38529071725 / 458373468 / 2425 :: real"
  have a: "association pearson_divergence table_4x2 ''cramer'' False () = Inr (Fin (sqrt ?q))"
    by (simp add: association_def chi2_table_4x2 issubdtype_integer_def table_4x2_fields)
  have "(18617 / 100000)\<^sup>2 < ?q" by (simp add: power2_eq_square)
  then have l: "18617 / 100000 < sqrt ?q" by (rule real_less_rsqrt)
  have "?q < (18618 / 100000)\<^sup>2" by (simp add: power2_eq_square)
  then have u: "sqrt ?q < 18618 / 100000" by (intro real_less_lsqrt) simp_all
  from a l u show ?thesis by blast
qed

lemma association_table_4x2_pearson:
  "\<exists>v. association pearson_divergence table_4x2 ''pearson'' False () = Inr (Fin v)
       \<and> 18303 / 100000 < v \<and> v < 18304 / 100000"
proof -
  let ?p = "38529071725 / 458373468 / 2425 :: real"
  let ?q = "?p / (1 + ?p)"
  have a: "association pearson_divergence table_4x2 ''pearson'' False () = Inr (Fin (sqrt ?q))"
    by (simp add: association_def chi2_table_4x2 issubdtype_integer_def table_4x2_fields)
  have "(18303 / 100000)\<^sup>2 < ?q" by (simp add: power2_eq_square)
  then have l: "18303 / 100000 < sqrt ?q" by (rule real_less_rsqrt)
  have "?q < (18304 / 100000)\<^sup>2" by (simp add: power2_eq_square)
  then have u: "sqrt ?q < 18304 / 100000" by (intro real_less_lsqrt) simp_all
  from a l u show ?thesis by blast
qed

lemma association_table_4x2_tschuprow:
  "\<exists>v. association pearson_divergence table_4x2 ''tschuprow'' False () = Inr (Fin v)
       \<and> 14146 / 100000 < v \<and> v < 14147 / 100000"
proof -
  let ?p = "38529071725 / 458373468 / 2425 :: real"
  let ?q = "?p / sqrt 3"
  have a: "association pearson_divergence table_4x2 ''tschuprow'' False () = Inr (Fin (sqrt ?q))"
    by (simp add: association_def chi2_table_4x2 issubdtype_integer_def table_4x2_fields)
  have s3l: "17320 / 10000 < sqrt (3::real)" by (rule real_less_rsqrt) (simp add: power2_eq_square)
  have s3u: "sqrt (3::real) < 17321 / 10000" by (intro real_less_lsqrt) (simp_all add: power2_eq_square)
  have p: "0 < ?p" by simp
  have "(14146 / 100000)\<^sup>2 < ?p / (17321 / 10000)" by (simp add: power2_eq_square)
  also have "\<dots> < ?q" using s3u s3l p by (intro divide_strict_left_mono) auto
  finally have l: "14146 / 100000 < sqrt ?q" by (rule real_less_rsqrt)
  have "?q < ?p / (17320 / 10000)" using s3u s3l p by (intro divide_strict_left_mono) auto
  also have "\<dots> < (14147 / 100000)\<^sup>2" by (simp add: power2_eq_square)
  finally have u: "sqrt ?q < 14147 / 100000" by (intro real_less_lsqrt) simp_all
  from a l u show ?thesis by blast
qed

subsection \<open>What a successful test returns\<close>

lemma degrees_of_freedom_shape:
  "shape a = shape b \<Longrightarrow> degrees_of_freedom a = degrees_of_freedom b"
  by (simp add: degrees_of_freedom_def size_nd_def ndim_def)

lemma chi2_contingency_success:
  assumes "well_formed observed"
      and "chi2_contingency pd observed correction lam = Inr (chi2, p, dof, expected)"
  shows "0 < size_nd observed"
    and "shape expected = shape observed"
    and "dof = degrees_of_freedom observed"
    and "dof = 0 \<Longrightarrow> chi2 = Fin 0 \<and> p = Fin 1"
proof -
  from assms(2) have e: "expected_freq observed = Inr expected"
    and d: "dof = degrees_of_freedom expected"
    and s: "0 < size_nd observed"
    and z: "dof = 0 \<longrightarrow> chi2 = Fin 0 \<and> p = Fin 1"
    by (auto simp: chi2_contingency_def Let_def
        split: if_splits sum.splits option.splits prod.splits)
  show "0 < size_nd observed" by (rule s)
  show sh: "shape expected = shape observed" using expected_freq_wf(1)[OF assms(1) e] .
  show "dof = degrees_of_freedom observed" using d degrees_of_freedom_shape[OF sh] by simp
  show "chi2 = Fin 0 \<and> p = Fin 1" if "dof = 0" using z that by simp
qed

subsection \<open>Evaluation of the examples\<close>

lemma chi2_table_2x3:
  "chi2_contingency pearson_divergence table_2x3 True ()
     = Inr (Fin (25 / 9), NaN, 2, expected_2x3)"
  by code_simp

lemma chi2_table_2x2:
  "chi2_contingency pearson_divergence table_2x2 False ()
     = Inr (Fin (20 / 3), NaN, 1, expected_2x2)"
  by code_simp

lemma chi2_table_3x1:
  "chi2_contingency pearson_divergence table_3x1 False ()
     = Inr (Fin 0, Fin 1, 0, \<lparr>dtype = DFloat, shape = [3, 1], data = [Fin 1, Fin 2, Fin 3]\<rparr>)"
  by code_simp

lemma chi2_table_1x3:
  "chi2_contingency failing_divergence table_1x3 False ()
     = Inr (Fin 0, Fin 1, 0, \<lparr>dtype = DFloat, shape = [1, 3], data = [Fin 1, Fin 2, Fin 3]\<rparr>)"
  by code_simp

lemma table_2x2_fields:
  "shape table_2x2 = [2, 2]" "dtype table_2x2 = DInt" "np_sum table_2x2 = 60"
  by (simp_all add: table_2x2_def np_sum_def)

lemma table_1x3_fields:
  "shape table_1x3 = [1, 3]" "dtype table_1x3 = DInt" "np_sum table_1x3 = 6"
  by (simp_all add: table_1x3_def np_sum_def)

lemma table_3x1_fields:
  "shape table_3x1 = [3, 1]" "dtype table_3x1 = DInt" "np_sum table_3x1 = 6"
  by (simp_all add: table_3x1_def np_sum_def)

lemma expected_freq_table_2x3: "expected_freq table_2x3 = Inr expected_2x3"
  by code_simp


lemma expected_freq_zero_row: "expected_freq table_zero_row = Inr expected_zero_row"
  by code_simp


lemma margins_table_2x3:
  "margins table_2x3
     = Inr [\<lparr>dtype = DInt, shape = [2, 1], data = [40, 60]\<rparr>,
            \<lparr>dtype = DInt, shape = [1, 3], data = [30, 30, 40]\<rparr>]"
  by code_simp

section \<open>The claims\<close>

text \<open>
  C1, a table on which it fails. The table \<open>[0, 5]\<close> has rank 1, no negative entry
  and two cells. Its expected table is the table itself, so the expected frequency at
  position 0 is zero and \<open>chi2_contingency\<close> raises the error that names this
  position instead of returning a result.
\<close>

theorem one_dim_table_with_zero_rejected:
  "chi2_contingency failing_divergence table_0_5 True () = Inl (ZeroExpected [0])"
  by code_simp

text \<open>
  C1, as the code has it. For a table of rank 1 with at least one cell and only positive
  entries, \<open>chi2_contingency\<close> returns the statistic \<open>0.0\<close>, the p-value \<open>1.0\<close>, 0
  degrees of freedom and the observed table as the expected table, and
  \<open>power_divergence\<close> is not called: the result is the same whatever it is.
\<close>

theorem one_dim_positive_table:
  assumes "shape observed = [n]" and "length (data observed) = n" and "0 < n"
      and "\<forall>x \<in> set (data observed). 0 < x"
  shows "chi2_contingency pd observed correction lam
       = Inr (Fin 0, Fin 1, 0, \<lparr>dtype = DFloat, shape = [n], data = map Fin (data observed)\<rparr>)"
proof -
  have neg: "\<not> list_ex (\<lambda>x. x < 0) (data observed)"
    using assms(4) by (auto simp: list_ex_iff)
  have z: "\<not> list_ex (\<lambda>x. x = Fin 0) (map Fin (data observed))"
    using assms(4) by (auto simp: list_ex_iff)
  show ?thesis
    using neg z assms(1,3)
    by (simp add: chi2_contingency_def expected_freq_one_dim[OF assms(1,2)] size_nd_def
        degrees_of_freedom_def ndim_def)
qed

theorem one_dim_positive_table_witness:
  "shape table_3_5 = [2] \<and> length (data table_3_5) = 2 \<and> (0::nat) < 2
   \<and> list_all (\<lambda>x. 0 < x) (data table_3_5)
   \<and> chi2_contingency failing_divergence table_3_5 True ()
       = Inr (Fin 0, Fin 1, 0, \<lparr>dtype = DFloat, shape = [2], data = [Fin 3, Fin 5]\<rparr>)"
proof -
  have s: "shape table_3_5 = [2]" and l: "length (data table_3_5) = 2"
    and p: "\<forall>x \<in> set (data table_3_5). 0 < x"
    by (simp_all add: table_3_5_def)
  from one_dim_positive_table[OF s l _ p, of failing_divergence True "()"] s l p
  show ?thesis by (simp add: list_all_iff table_3_5_def)
qed




text \<open>
  C3. For a table with \<open>r\<close> rows and \<open>c\<close> columns the formula of the degrees of
  freedom, \<open>size - sum(shape) + ndim - 1\<close>, gives \<open>(r - 1) * (c - 1)\<close>, and this is the
  number that \<open>chi2_contingency\<close> returns whenever it returns.
\<close>

theorem dof_two_dim:
  assumes "shape observed = [r, c]"
  shows "(\<forall>expected :: npfloat ndarray. shape expected = shape observed \<longrightarrow>
            degrees_of_freedom expected = (int r - 1) * (int c - 1))
       \<and> (well_formed observed \<longrightarrow>
            (\<forall>chi2 p dof expected.
               chi2_contingency pd observed correction lam = Inr (chi2, p, dof, expected) \<longrightarrow>
               dof = (int r - 1) * (int c - 1)))"
proof -
  have f: "degrees_of_freedom t = (int r - 1) * (int c - 1)" if "shape t = [r, c]"
    for t :: "'b ndarray"
    using that by (simp add: degrees_of_freedom_def size_nd_def ndim_def algebra_simps)
  have "dof = (int r - 1) * (int c - 1)"
    if "well_formed observed" "chi2_contingency pd observed correction lam = Inr (chi2, p, dof, expected)"
    for chi2 p dof expected
    using chi2_contingency_success(3)[OF that] f[OF assms] by simp
  then show ?thesis using f assms by auto
qed

theorem dof_two_dim_witness:
  "shape table_2x3 = [2, 3] \<and> shape expected_2x3 = shape table_2x3 \<and> well_formed table_2x3
   \<and> chi2_contingency pearson_divergence table_2x3 True ()
       = Inr (Fin (25 / 9), NaN, 2, expected_2x3)
   \<and> degrees_of_freedom expected_2x3 = (int 2 - 1) * (int 3 - 1)
   \<and> (2::int) = (int 2 - 1) * (int 3 - 1)"
proof -
  have s: "shape table_2x3 = [2, 3]" by (simp add: table_2x3_def)
  have e: "shape expected_2x3 = shape table_2x3" by (simp add: table_2x3_def expected_2x3_def)
  have w: "well_formed table_2x3" by (simp add: table_2x3_def well_formed_def)
  note d = dof_two_dim[OF s, of pearson_divergence True "()"]
  have 1: "degrees_of_freedom expected_2x3 = (int 2 - 1) * (int 3 - 1)"
    using conjunct1[OF d, rule_format, OF e] .
  have 2: "(2::int) = (int 2 - 1) * (int 3 - 1)"
    using conjunct2[OF d, rule_format, OF w chi2_table_2x3] .
  from s e w chi2_table_2x3 1 2 show ?thesis by (intro conjI)
qed

text \<open>
  C4. When the table has no negative entry and at least one cell, and the table of its
  expected frequencies has a cell that is exactly zero, \<open>chi2_contingency\<close> raises the
  error that names a position; the position is an index of the table, and the expected
  frequency at this position is zero. No statistic is computed: the result is the same
  whatever \<open>power_divergence\<close> is.
\<close>

theorem zero_expected_cell_reported:
  assumes "well_formed observed"
      and "\<forall>x \<in> set (data observed). 0 \<le> x"
      and "0 < size_nd observed"
      and "expected_freq observed = Inr expected"
      and "Fin 0 \<in> set (data expected)"
  shows "chi2_contingency pd observed correction lam = Inl (ZeroExpected (zeropos expected))
       \<and> valid_index (shape expected) (zeropos expected)
       \<and> item expected (zeropos expected) = Fin 0"
proof -
  let ?p = "length (takeWhile (\<lambda>x. x \<noteq> Fin 0) (data expected))"
  have wfe: "length (data expected) = prod_list (shape expected)"
    using expected_freq_wf[OF assms(1,4)] by simp
  have p: "?p < prod_list (shape expected)"
    using first_zero_position(1)[OF assms(5)] wfe by simp
  have z: "data expected ! ?p = Fin 0" using first_zero_position(2)[OF assms(5)] .
  have neg: "\<not> list_ex (\<lambda>x. x < 0) (data observed)"
    using assms(2) by (auto simp: list_ex_iff)
  have "chi2_contingency pd observed correction lam = Inl (ZeroExpected (zeropos expected))"
    using assms(3,4,5) neg by (simp add: chi2_contingency_def list_ex_iff)
  moreover have "valid_index (shape expected) (zeropos expected)"
    unfolding zeropos_def using p by (rule unravel_valid)
  moreover have "item expected (zeropos expected) = Fin 0"
    using z by (simp add: item_def zeropos_def ravel_unravel[OF p])
  ultimately show ?thesis by simp
qed

theorem zero_expected_cell_reported_witness:
  "well_formed table_zero_row \<and> list_all (\<lambda>x. 0 \<le> x) (data table_zero_row)
   \<and> 0 < size_nd table_zero_row
   \<and> expected_freq table_zero_row = Inr expected_zero_row
   \<and> Fin 0 \<in> set (data expected_zero_row)
   \<and> chi2_contingency failing_divergence table_zero_row True () = Inl (ZeroExpected [1, 0])
   \<and> valid_index (shape expected_zero_row) [1, 0]
   \<and> item expected_zero_row [1, 0] = Fin 0"
proof -
  have w: "well_formed table_zero_row" by (simp add: table_zero_row_def well_formed_def)
  have n: "\<forall>x \<in> set (data table_zero_row). 0 \<le> x" by (simp add: table_zero_row_def)
  have s: "0 < size_nd table_zero_row" by (simp add: table_zero_row_def size_nd_def)
  have z: "Fin 0 \<in> set (data expected_zero_row)" by (simp add: expected_zero_row_def)
  have p: "zeropos expected_zero_row = [1, 0]" by code_simp
  from zero_expected_cell_reported[OF w n s expected_freq_zero_row z, of failing_divergence True "()"]
    w n s expected_freq_zero_row z
  show ?thesis by (simp add: p list_all_iff)
qed

text \<open>
  C5. A table with a negative entry is rejected with the error NegativeValue. The check
  is the first thing \<open>chi2_contingency\<close> does: no expected frequency and no statistic
  is computed, whatever \<open>power_divergence\<close> is, and nothing is returned.
\<close>

theorem negative_entry_rejected:
  "\<exists>x \<in> set (data observed). x < 0 \<Longrightarrow>
   chi2_contingency pd observed correction lam = Inl NegativeValue"
  by (simp add: chi2_contingency_def list_ex_iff)

theorem negative_entry_rejected_witness:
  "(\<exists>x \<in> set (data table_negative). x < 0)
   \<and> chi2_contingency failing_divergence table_negative True () = Inl NegativeValue"
proof -
  have h: "\<exists>x \<in> set (data table_negative). x < 0" by (simp add: table_negative_def)
  from negative_entry_rejected[OF h] h show ?thesis by simp
qed

text \<open>
  C6. For a table of rank at least 1 (the tables \<open>expected_freq\<close> is made for) whose
  total count is not zero, \<open>expected_freq\<close> returns a table of the same shape whose cells
  sum to the total count of the observed table. The arithmetic is exact: the cells are
  real numbers.
\<close>

theorem expected_freq_preserves_total:
  assumes "well_formed observed" and "0 < ndim observed" and "np_sum observed \<noteq> 0"
  shows "\<exists>expected. expected_freq observed = Inr expected
           \<and> shape expected = shape observed
           \<and> fsum (data expected) = Fin (np_sum observed)"
proof -
  let ?T = "np_sum observed" and ?d = "ndim observed"
  let ?ys = "outer_data observed ?d"
  have c: "?T ^ (?d - 1) \<noteq> 0" using assms(3) by simp
  then have m: "map (\<lambda>x. fdiv (Fin x) (Fin (?T ^ (?d - 1)))) ?ys
              = map Fin (map (\<lambda>x. x / ?T ^ (?d - 1)) ?ys)" by simp
  have "sum_list ?ys = ?T ^ ?d" using assms by (intro sum_list_outer_data) auto
  also have "\<dots> = ?T * ?T ^ (?d - 1)" using assms(2) by (cases ?d) auto
  finally have s: "sum_list (map (\<lambda>x. x / ?T ^ (?d - 1)) ?ys) = ?T"
    using c by (simp add: sum_list_divide)
  have "fsum (map Fin (map (\<lambda>x. x / ?T ^ (?d - 1)) ?ys))
      = Fin (0 + sum_list (map (\<lambda>x. x / ?T ^ (?d - 1)) ?ys))"
    unfolding fsum_def by (rule fsum_Fin)
  then have "fsum (map (\<lambda>x. fdiv (Fin x) (Fin (?T ^ (?d - 1)))) ?ys) = Fin ?T"
    unfolding m s by simp
  then show ?thesis using expected_freq_eq[OF assms(1,2)] by simp
qed

theorem expected_freq_preserves_total_witness:
  "well_formed table_2x3 \<and> 0 < ndim table_2x3 \<and> np_sum table_2x3 \<noteq> 0
   \<and> expected_freq table_2x3 = Inr expected_2x3
   \<and> shape expected_2x3 = shape table_2x3
   \<and> fsum (data expected_2x3) = Fin (np_sum table_2x3)
   \<and> np_sum table_2x3 = 100"
proof -
  have w: "well_formed table_2x3" and d: "0 < ndim table_2x3" and t: "np_sum table_2x3 = 100"
    by (simp_all add: table_2x3_def well_formed_def ndim_def np_sum_def)
  have n: "np_sum table_2x3 \<noteq> 0" by (simp add: t)
  from expected_freq_preserves_total[OF w d n] w d n t expected_freq_table_2x3
  show ?thesis by auto
qed

text \<open>
  C7. \<open>margins\<close> never raises and returns one array for each axis of the table. The
  array for axis \<open>k\<close> has the rank of the table, with the length of the table on axis
  \<open>k\<close> and length 1 on every other axis; its cell at position \<open>i\<close> of axis \<open>k\<close> is the sum
  of all cells of the table whose \<open>k\<close>-th coordinate is \<open>i\<close>, which is the table summed
  over all axes other than \<open>k\<close>; and its sum over axis \<open>k\<close> is the one-cell array of
  the grand total of the table.
\<close>

theorem margins_are_marginal_sums:
  "\<exists>ms. margins a = Inr ms \<and> length ms = ndim a \<and>
     (well_formed a \<longrightarrow>
       (\<forall>k < ndim a.
          ndim (ms ! k) = ndim a
        \<and> shape (ms ! k) = (replicate (ndim a) 1)[k := shape a ! k]
        \<and> well_formed (ms ! k)
        \<and> (\<forall>i < shape a ! k.
              item (ms ! k) ((replicate (ndim a) 0)[k := i]) = marginal_total a k i)
        \<and> sum_keepdims (ms ! k) k
            = Inr ((ms ! k)\<lparr>shape := replicate (ndim a) 1, data := [np_sum a]\<rparr>)))"
proof (intro exI conjI impI allI)
  show "margins a = Inr (map (margin_array a) [0..<ndim a])" by (rule margins_eq)
  show "length (map (margin_array a) [0..<ndim a]) = ndim a" by simp
next
  fix k assume a: "well_formed a" and k: "k < ndim a"
  have m: "map (margin_array a) [0..<ndim a] ! k = margin_array a k" using k by simp
  show "ndim (map (margin_array a) [0..<ndim a] ! k) = ndim a"
    unfolding m by (rule margin_array_props(2)[OF a k])
  show "shape (map (margin_array a) [0..<ndim a] ! k) = (replicate (ndim a) 1)[k := shape a ! k]"
    unfolding m by (rule margin_array_props(1)[OF a k])
  show "well_formed (map (margin_array a) [0..<ndim a] ! k)"
    unfolding m by (rule margin_array_props(3)[OF a k])
  show "sum_keepdims (map (margin_array a) [0..<ndim a] ! k) k
      = Inr ((map (margin_array a) [0..<ndim a] ! k)\<lparr>shape := replicate (ndim a) 1, data := [np_sum a]\<rparr>)"
    unfolding m by (rule sum_keepdims_margin[OF a k])
  fix i assume "i < shape a ! k"
  then show "item (map (margin_array a) [0..<ndim a] ! k) ((replicate (ndim a) 0)[k := i])
           = marginal_total a k i"
    unfolding m by (rule margin_array_props(5)[OF a k])
qed

theorem margins_are_marginal_sums_witness:
  "well_formed table_2x3 \<and> ndim table_2x3 = 2
   \<and> margins table_2x3
       = Inr [\<lparr>dtype = DInt, shape = [2, 1], data = [40, 60]\<rparr>,
              \<lparr>dtype = DInt, shape = [1, 3], data = [30, 30, 40]\<rparr>]
   \<and> marginal_total table_2x3 0 1 = 60
   \<and> marginal_total table_2x3 1 2 = 40
   \<and> sum_keepdims \<lparr>dtype = DInt, shape = [1, 3], data = [30, 30, 40 :: real]\<rparr> 1
       = Inr \<lparr>dtype = DInt, shape = [1, 1], data = [100]\<rparr>"
proof -
  have w: "well_formed table_2x3" and d: "ndim table_2x3 = 2" and t: "np_sum table_2x3 = 100"
    and s: "shape table_2x3 = [2, 3]"
    by (simp_all add: table_2x3_def well_formed_def ndim_def np_sum_def)
  from margins_are_marginal_sums[of table_2x3] obtain ms where
    ms: "margins table_2x3 = Inr ms"
    and all: "\<forall>k < ndim table_2x3.
          ndim (ms ! k) = ndim table_2x3
        \<and> shape (ms ! k) = (replicate (ndim table_2x3) 1)[k := shape table_2x3 ! k]
        \<and> well_formed (ms ! k)
        \<and> (\<forall>i < shape table_2x3 ! k.
              item (ms ! k) ((replicate (ndim table_2x3) 0)[k := i]) = marginal_total table_2x3 k i)
        \<and> sum_keepdims (ms ! k) k
            = Inr ((ms ! k)\<lparr>shape := replicate (ndim table_2x3) 1, data := [np_sum table_2x3]\<rparr>)"
    using w by blast
  have ms_eq: "ms = [\<lparr>dtype = DInt, shape = [2, 1], data = [40, 60]\<rparr>,
                     \<lparr>dtype = DInt, shape = [1, 3], data = [30, 30, 40]\<rparr>]"
    using ms margins_table_2x3 by simp
  have k0: "item (ms ! 0) ((replicate 2 0)[0 := 1]) = marginal_total table_2x3 0 1"
    using all[rule_format, of 0] d s by simp
  have k1: "item (ms ! 1) ((replicate 2 0)[1 := 2]) = marginal_total table_2x3 1 2"
    and k1s: "sum_keepdims (ms ! 1) 1 = Inr ((ms ! 1)\<lparr>shape := replicate 2 1, data := [100]\<rparr>)"
    using all[rule_format, of 1] d s t by simp_all
  have "marginal_total table_2x3 0 1 = 60"
    using k0 by (simp add: ms_eq item_def numeral_2_eq_2)
  moreover have "marginal_total table_2x3 1 2 = 40"
    using k1 by (simp add: ms_eq item_def numeral_2_eq_2)
  moreover have "sum_keepdims \<lparr>dtype = DInt, shape = [1, 3], data = [30, 30, 40 :: real]\<rparr> 1
       = Inr \<lparr>dtype = DInt, shape = [1, 1], data = [100]\<rparr>"
    using k1s by (simp add: ms_eq numeral_2_eq_2)
  ultimately show ?thesis using w d margins_table_2x3 by simp
qed

text \<open>
  C8. On a square table Cramer's V and Tschuprow's T are the same: \<open>association\<close> with
  the method \<open>cramer\<close> and with the method \<open>tschuprow\<close> returns the same value, or
  raises the same error, for the same table, correction flag and \<open>lambda_\<close>. The square
  root is the one of the real numbers.
\<close>

theorem cramer_equals_tschuprow_on_square:
  assumes "shape arr = [n, n]"
  shows "association pd arr ''cramer'' correction lam
       = association pd arr ''tschuprow'' correction lam"
proof (cases "n = 0")
  case True
  then have "chi2_contingency pd arr correction lam = Inl NegativeValue
           \<or> chi2_contingency pd arr correction lam = Inl EmptyInput"
    using assms by (simp add: chi2_contingency_def size_nd_def)
  then show ?thesis by (auto simp: association_def)
next
  case False
  then have "sqrt (real_of_int ((int n - 1) * (int n - 1))) = real_of_int (int n - 1)"
    by simp
  then show ?thesis using assms False
    by (simp add: association_def Let_def split: sum.splits)
qed

theorem cramer_equals_tschuprow_on_square_witness:
  "shape table_2x2 = [2, 2]
   \<and> association pearson_divergence table_2x2 ''cramer'' False ()
       = association pearson_divergence table_2x2 ''tschuprow'' False ()
   \<and> association pearson_divergence table_2x2 ''tschuprow'' False () = Inr (Fin (1 / 3))"
proof -
  have t: "association pearson_divergence table_2x2 ''tschuprow'' False () = Inr (Fin (1 / 3))"
    by (simp add: association_def chi2_table_2x2 issubdtype_integer_def table_2x2_fields
        real_sqrt_divide)
  from cramer_equals_tschuprow_on_square[OF table_2x2_fields(1), of pearson_divergence False "()"]
    table_2x2_fields(1) t
  show ?thesis by simp
qed

text \<open>
  C9, a table on which it fails. The table \<open>[[1, 2, 3]]\<close> has one row. With the
  method \<open>cramer\<close> the divisor \<open>min(n_cols - 1, n_rows - 1)\<close> is 0, and the dividend
  is the numpy float64 \<open>0.0 / arr.sum()\<close>: the division raises nothing and gives
  \<open>nan\<close>, \<open>math.sqrt\<close> returns \<open>nan\<close>, and \<open>association\<close> returns it.
\<close>

theorem association_one_row_returns_nan:
  "association failing_divergence table_1x3 ''cramer'' False () = Inr NaN"
  by (simp add: association_def chi2_table_1x3 issubdtype_integer_def table_1x3_fields)

text \<open>
  C9, as the code has it. On a table of integers with one row or with one column the
  methods \<open>cramer\<close> and \<open>tschuprow\<close> divide by zero, and the division is not guarded.
  The dividend is a numpy float64, whose division by zero raises nothing: when
  \<open>chi2_contingency\<close> accepts the table, the statistic is \<open>0.0\<close>, the quotient is
  \<open>nan\<close>, and \<open>association\<close> returns \<open>nan\<close>; when \<open>chi2_contingency\<close> rejects the
  table, \<open>association\<close> raises its error. No ZeroDivisionError is raised.
\<close>

theorem association_one_row_or_column:
  assumes "well_formed arr" and "issubdtype_integer (dtype arr)" and "shape arr = [r, c]"
      and "r = 1 \<or> c = 1" and "method = ''cramer'' \<or> method = ''tschuprow''"
  shows "association pd arr method correction lam
       = (case chi2_contingency pd arr correction lam of
            Inl e \<Rightarrow> Inl e
          | Inr chi2_stat \<Rightarrow> Inr NaN)
       \<and> association pd arr method correction lam \<noteq> Inl ZeroDivisionError"
proof (cases "chi2_contingency pd arr correction lam")
  case (Inl e)
  then have "association pd arr method correction lam = Inl e"
    using assms(2,3) by (simp add: association_def)
  moreover have "e \<noteq> ZeroDivisionError" using chi2_contingency_error[OF Inl] by auto
  ultimately show ?thesis using Inl by simp
next
  case (Inr res)
  obtain chi2 p dof expected where res: "res = (chi2, p, dof, expected)" by (cases res)
  note ok = chi2_contingency_success[OF assms(1) Inr[unfolded res]]
  have pos: "0 < r" "0 < c" using ok(1) assms(3) by (simp_all add: size_nd_def)
  have "dof = (int r - 1) * (int c - 1)"
    using ok(3) assms(3) by (simp add: degrees_of_freedom_def size_nd_def ndim_def algebra_simps)
  then have "dof = 0" using assms(4) by auto
  then have chi2: "chi2 = Fin 0" using ok(4) by simp
  have m: "min (int c - 1) (int r - 1) = 0" "(int r - 1) * (int c - 1) = 0"
    using assms(4) pos by auto
  have q: "fdiv (fdiv (Fin 0) (Fin t)) (Fin 0) = NaN" for t by simp
  have "association pd arr method correction lam = Inr NaN"
    using assms(2,3,5) Inr res chi2 m q
    by (auto simp: association_def Let_def)
  then show ?thesis using Inr by simp
qed

theorem association_one_row_or_column_witness:
  "well_formed table_3x1 \<and> issubdtype_integer (dtype table_3x1) \<and> shape table_3x1 = [3, 1]
   \<and> chi2_contingency pearson_divergence table_3x1 False ()
       = Inr (Fin 0, Fin 1, 0, \<lparr>dtype = DFloat, shape = [3, 1], data = [Fin 1, Fin 2, Fin 3]\<rparr>)
   \<and> association pearson_divergence table_3x1 ''tschuprow'' False () = Inr NaN"
proof -
  have w: "well_formed table_3x1" and i: "issubdtype_integer (dtype table_3x1)"
    by (simp_all add: table_3x1_def well_formed_def issubdtype_integer_def)
  from association_one_row_or_column[OF w i table_3x1_fields(1), of "''tschuprow''"
      pearson_divergence False "()"] w i table_3x1_fields(1) chi2_table_3x1
  show ?thesis by simp
qed

text \<open>
  C10. \<open>association\<close> checks the dtype before the rank: a table whose dtype is not an
  integer type is rejected with WrongDtype whatever its rank is, so WrongRank is raised
  only for tables of integers, and it is raised for every table of integers whose rank
  is not 2.
\<close>

theorem association_checks_dtype_first:
  "(\<not> issubdtype_integer (dtype arr) \<longrightarrow>
      association pd arr method correction lam = Inl WrongDtype) \<and>
   (association pd arr method correction lam = Inl WrongRank \<longrightarrow>
      issubdtype_integer (dtype arr) \<and> length (shape arr) \<noteq> 2) \<and>
   (issubdtype_integer (dtype arr) \<and> length (shape arr) \<noteq> 2 \<longrightarrow>
      association pd arr method correction lam = Inl WrongRank)"
  by (auto simp: association_def Let_def split: if_splits sum.splits
      dest!: chi2_contingency_error py_sqrt_error)

theorem association_checks_dtype_first_witness:
  "\<not> issubdtype_integer (dtype float_table_1d) \<and> length (shape float_table_1d) = 1
   \<and> association failing_divergence float_table_1d ''cramer'' False () = Inl WrongDtype
   \<and> \<not> issubdtype_integer (dtype float_table_3d) \<and> length (shape float_table_3d) = 3
   \<and> association failing_divergence float_table_3d ''cramer'' False () = Inl WrongDtype
   \<and> issubdtype_integer (dtype int_table_1d) \<and> length (shape int_table_1d) \<noteq> 2
   \<and> association failing_divergence int_table_1d ''cramer'' False () = Inl WrongRank"
  using association_checks_dtype_first[of float_table_1d failing_divergence "''cramer''" False "()"]
        association_checks_dtype_first[of float_table_3d failing_divergence "''cramer''" False "()"]
        association_checks_dtype_first[of int_table_1d failing_divergence "''cramer''" False "()"]
  by (simp add: float_table_1d_def float_table_3d_def int_table_1d_def issubdtype_integer_def)

end
